theory Spec2Isabelle
  imports Main "HOL-Library.Word"
begin

section \<open>Data model\<close>

text \<open>
  A JavaScript string is a sequence of UTF-16 code units; \<open>charCodeAt\<close> reads one of
  them as a number below 65536. Identifiers (\<open>Date.now()\<close> values) and timestamps are
  natural numbers; \<open>new Date().toISOString()\<close> is modelled by the clock value it prints.
\<close>

type_synonym jstring = "16 word list"

record toggle =
  tog_id :: nat
  tog_title :: jstring
  content :: jstring
  isOpen :: bool

record "note" =
  note_id :: nat
  title :: jstring
  toggles :: "toggle list"
  created :: nat
  updated :: nat

text \<open>
  \<open>JSON.parse(JSON.stringify(x))\<close> builds a structurally equal value that shares nothing
  with \<open>x\<close>. Values of HOL have no identity, so the deep copy is the value itself, and
  comparing two serialisations (same key order, as every note here is a copy of another)
  is equality of the values.
\<close>

section \<open>The content hash (uiManager.js, \<open>_hashContent\<close>)\<close>

text \<open>
  \<open>ToInt32\<close> of ECMAScript on an integer: reduce modulo \<open>2^32\<close> into the signed range.
  Both \<open>hash << 5\<close> and \<open>hash & hash\<close> coerce their result with it; the subtraction and
  the addition between them are exact (all values stay far below \<open>2^53\<close>).
\<close>

definition toInt32 :: "int \<Rightarrow> int" where
  "toInt32 x = (x + 2 ^ 31) mod 2 ^ 32 - 2 ^ 31"

definition hashStep :: "int \<Rightarrow> 16 word \<Rightarrow> int" where
  "hashStep hash c =
     (let hash1 = (toInt32 (toInt32 hash * 2 ^ 5) - hash) + uint c
      in toInt32 hash1)"

definition hashContent :: "jstring \<Rightarrow> int" where
  "hashContent str = foldl hashStep 0 str"

text \<open>The same recurrence on 32-bit machine words: \<open>h := 31 * h + c\<close>, wrapping.\<close>

definition hashWord :: "jstring \<Rightarrow> 32 word" where
  "hashWord str = foldl (\<lambda>h c. h * 31 + ucast c) 0 str"

section \<open>HistoryManager\<close>

text \<open>
  Modelled from the spec: \<open>history.js\<close> (class \<open>HistoryManager\<close>, imported by
  uiManager.js) is not among the sources. The definitions follow section 4.2 of the
  specification: two stacks of snapshots (head of the list = top), a notification
  \<open>onChange({canUndo, canRedo})\<close> after every call that changes a stack, recorded here in
  the order of the calls, most recent first.
\<close>

record history =
  undoStack :: "note list"
  redoStack :: "note list"
  notifications :: "(bool \<times> bool) list"

text \<open>Modelled from the spec: \<open>canUndo\<close> and \<open>canRedo\<close> are derived, not stored.\<close>

definition canUndo :: "history \<Rightarrow> bool" where
  "canUndo h = (undoStack h \<noteq> [])"

definition canRedo :: "history \<Rightarrow> bool" where
  "canRedo h = (redoStack h \<noteq> [])"

text \<open>Modelled from the spec: the notification carries the recomputed flags.\<close>

definition notify :: "history \<Rightarrow> history" where
  "notify h = h\<lparr>notifications := (canUndo h, canRedo h) # notifications h\<rparr>"

text \<open>
  Modelled from the spec: \<open>push\<close> puts the snapshot on top of the undo stack and
  clears the redo stack.
\<close>

definition push :: "note \<Rightarrow> history \<Rightarrow> history" where
  "push snapshot h = notify (h\<lparr>undoStack := snapshot # undoStack h, redoStack := []\<rparr>)"

text \<open>
  Modelled from the spec: \<open>undo\<close> on an empty undo stack returns \<open>null\<close> and changes
  nothing; otherwise it pops the top, pushes the current state on the redo stack and
  returns the popped snapshot.
\<close>

definition undo :: "note \<Rightarrow> history \<Rightarrow> note option \<times> history" where
  "undo currentState h =
     (case undoStack h of
        [] \<Rightarrow> (None, h)
      | prev # rest \<Rightarrow>
          (Some prev, notify (h\<lparr>undoStack := rest, redoStack := currentState # redoStack h\<rparr>)))"

text \<open>Modelled from the spec: \<open>redo\<close> is symmetric to \<open>undo\<close>.\<close>

definition redo :: "note \<Rightarrow> history \<Rightarrow> note option \<times> history" where
  "redo currentState h =
     (case redoStack h of
        [] \<Rightarrow> (None, h)
      | nxt # rest \<Rightarrow>
          (Some nxt, notify (h\<lparr>redoStack := rest, undoStack := currentState # undoStack h\<rparr>)))"

text \<open>Modelled from the spec: \<open>clear\<close> empties both stacks.\<close>

definition clear :: "history \<Rightarrow> history" where
  "clear h = notify (h\<lparr>undoStack := [], redoStack := []\<rparr>)"

section \<open>StorageManager and NoteManager (storage.js, noteManager.js)\<close>

text \<open>
  \<open>localStorage\<close>: the stored items in insertion order, the number of \<open>setItem\<close> calls made
  so far, and whether \<open>setItem\<close> raises (quota exceeded). Only the key \<open>notes\<close> is written
  by the functions below, so an item holds a list of notes (its JSON text, parsed).
\<close>

record localStorage =
  items :: "(string \<times> note list) list"
  setItemCalls :: nat
  quotaExceeded :: bool

text \<open>
  Assignment to a key of an insertion-ordered table (\<open>localStorage.setItem\<close>, \<open>Map.set\<close>):
  an existing key keeps its place and takes the new value, a new key goes last.
\<close>

fun map_set :: "'k \<Rightarrow> 'v \<Rightarrow> ('k \<times> 'v) list \<Rightarrow> ('k \<times> 'v) list" where
  "map_set k v [] = [(k, v)]"
| "map_set k v ((k', v') # rest) =
     (if k' = k then (k, v) # rest else (k', v') # map_set k v rest)"

definition getAppNamespace :: string where
  "getAppNamespace = ''app1''"

definition save :: "string \<Rightarrow> note list \<Rightarrow> localStorage \<Rightarrow> bool \<times> localStorage" where
  "save key data ls =
     (let namespacedKey = getAppNamespace @ ''_'' @ key;
          ls1 = ls\<lparr>setItemCalls := setItemCalls ls + 1\<rparr>
      in if quotaExceeded ls then (False, ls1)
         else (True, ls1\<lparr>items := map_set namespacedKey data (items ls1)\<rparr>))"

record noteManager =
  "notes" :: "note list"

definition saveNotes :: "noteManager \<Rightarrow> localStorage \<Rightarrow> localStorage" where
  "saveNotes nm ls = snd (save ''notes'' (notes nm) ls)"

text \<open>\<open>Array.prototype.findIndex\<close>; \<open>None\<close> stands for \<open>-1\<close>.\<close>

fun findIndex :: "('a \<Rightarrow> bool) \<Rightarrow> 'a list \<Rightarrow> nat option" where
  "findIndex P [] = None"
| "findIndex P (x # xs) =
     (if P x then Some 0 else map_option Suc (findIndex P xs))"

text \<open>
  \<open>updateNote(note)\<close> at time \<open>now\<close>. The caller's object is mutated (\<open>note.updated\<close>), so the
  note as the caller sees it afterwards is returned with the manager and the storage.
\<close>

definition updateNote ::
  "nat \<Rightarrow> note \<Rightarrow> noteManager \<Rightarrow> localStorage \<Rightarrow> note \<times> noteManager \<times> localStorage" where
  "updateNote now note0 nm ls =
     (let note1 = note0\<lparr>updated := now\<rparr> in
      case findIndex (\<lambda>n. note_id n = note_id note1) (notes nm) of
        None \<Rightarrow> (note1, nm, ls)
      | Some index \<Rightarrow>
          (let nm1 = nm\<lparr>notes := (notes nm)[index := note1]\<rparr>
           in (note1, nm1, saveNotes nm1 ls)))"

section \<open>The page: rendered regions, timers, animation frames\<close>

text \<open>
  A rendered region is the \<open>textarea\<close> of a toggle. Of the document the model keeps the
  scroll offset of the \<open>.editor-content\<close> container (\<open>None\<close>: no such element), the
  textareas in document order with their \<open>data-toggle-id\<close>, the number of renders of the
  toggle list so far, and the height the browser lays a region out with. Every render
  replaces all textareas, so a textarea element held by a callback is still in the
  document exactly when no render has happened since; the render count stands for the
  identity of the elements. Assigning \<open>scrollTop\<close> stores the value: the browser's clamping
  to the scrollable range is not modelled. Selection, focus and style are left out.
\<close>

record textarea =
  ta_value :: jstring
  scrollTop :: nat
  scrollHeight :: nat

record dom =
  editorContent :: "nat option"
  textareas :: "(nat \<times> textarea) list"
  renders :: nat
  layout :: "nat \<Rightarrow> nat"

text \<open>\<open>document.querySelector('textarea[data-toggle-id="<id>"]')\<close>: the first match.\<close>

definition querySelector :: "nat \<Rightarrow> dom \<Rightarrow> textarea option" where
  "querySelector i d = map_of (textareas d) i"

text \<open>A write to the element \<open>querySelector\<close> returned: the first entry with that id.\<close>

fun modifyFirst ::
  "nat \<Rightarrow> (textarea \<Rightarrow> textarea) \<Rightarrow> (nat \<times> textarea) list \<Rightarrow> (nat \<times> textarea) list" where
  "modifyFirst i f [] = []"
| "modifyFirst i f ((j, ta) # rest) =
     (if j = i then (j, f ta) # rest else (j, ta) # modifyFirst i f rest)"

definition modifyTextarea :: "nat \<Rightarrow> (textarea \<Rightarrow> textarea) \<Rightarrow> dom \<Rightarrow> dom" where
  "modifyTextarea i f d = d\<lparr>textareas := modifyFirst i f (textareas d)\<rparr>"

text \<open>What \<open>_handleToggleSection\<close> captures of a region before the mutation.\<close>

record scrollState =
  cap_scrollTop :: nat
  cap_scrollHeight :: nat
  cap_content :: jstring
  contentHash :: int

text \<open>
  The variables of \<open>_handleToggleSection\<close> that its two restore callbacks close over:
  whether \<open>editorContent\<close> was found, \<open>editorScrollTop\<close>, the \<open>scrollPositions\<close> map (in
  insertion order), \<open>toggleId\<close>, \<open>toggle.isOpen\<close> (read after the flip; nothing writes
  \<open>isOpen\<close> again while the guard is held) and \<open>toggleScrollState\<close>.
\<close>

record restoreClosure =
  c_editorPresent :: bool
  c_editorScrollTop :: nat
  c_scrollPositions :: "(nat \<times> scrollState) list"
  c_toggleId :: nat
  c_toggleIsOpen :: bool
  c_toggleScrollState :: "scrollState option"

text \<open>
  Callbacks waiting for a timer: the debounced \<open>_handleToggleSection(toggleId)\<close>, the
  auto-save commit of \<open>handleNoteChange\<close> with its \<open>previousState\<close>, and the delayed second
  restore pass. Callbacks waiting for the next animation frame: the first restore pass,
  and the deferred write to the just opened region (the render count when its textarea
  was looked up, the toggle id, the captured state).
\<close>

datatype task =
    ToggleTask nat
  | AutoSaveTask "note"
  | FinalCheckTask restoreClosure

datatype frameTask =
    RestoreTask restoreClosure
  | RescaleTask nat nat scrollState

text \<open>
  The fields of \<open>UIManager\<close> that the modelled methods use, then the platform: the
  storage, the document, the clock in milliseconds, the number of timer ids handed out,
  the pending timers (id, due time, callback) and the queued animation-frame callbacks.
  A timer id is a positive integer, so a stored id is truthy and \<open>None\<close> is \<open>null\<close>.
\<close>

record ui =
  currentNote :: "note option"
  autoSaveTimeout :: "nat option"
  lastKnownScrollPosition :: nat
  savedToggleStates :: "(nat \<times> nat \<times> nat) list option"
  isRestoring :: bool
  toggleDebounce :: "nat option"
  scrollRestoreTimeout :: "nat option"
  history :: history
  noteManager :: noteManager
  storage :: localStorage
  document :: dom
  clock :: nat
  handlesIssued :: nat
  timers :: "(nat \<times> nat \<times> task) list"
  frames :: "frameTask list"

definition setTimeout :: "task \<Rightarrow> nat \<Rightarrow> ui \<Rightarrow> nat \<times> ui" where
  "setTimeout callback delay s =
     (let handle = Suc (handlesIssued s)
      in (handle, s\<lparr>handlesIssued := handle,
                     timers := timers s @ [(handle, clock s + delay, callback)]\<rparr>))"

definition clearTimeout :: "nat \<Rightarrow> ui \<Rightarrow> ui" where
  "clearTimeout handle s = s\<lparr>timers := filter (\<lambda>t. fst t \<noteq> handle) (timers s)\<rparr>"

definition requestAnimationFrame :: "frameTask \<Rightarrow> ui \<Rightarrow> ui" where
  "requestAnimationFrame callback s = s\<lparr>frames := frames s @ [callback]\<rparr>"

section \<open>Text edits (uiManager.js, \<open>handleNoteChange\<close> and \<open>updateToggleContent\<close>)\<close>

text \<open>
  \<open>handleNoteChange(e)\<close>: the event is given by whether its target is the title input and
  by the value of the target.
\<close>

definition handleNoteChange :: "bool \<times> jstring \<Rightarrow> ui \<Rightarrow> ui" where
  "handleNoteChange e s =
     (case currentNote s of
        None \<Rightarrow> s
      | Some cur \<Rightarrow>
          (let s1 = (case autoSaveTimeout s of None \<Rightarrow> s | Some h \<Rightarrow> clearTimeout h s);
               previousState = cur;
               cur1 = (if fst e then cur\<lparr>title := snd e\<rparr> else cur);
               s2 = s1\<lparr>currentNote := Some cur1\<rparr>;
               (h, s3) = setTimeout (AutoSaveTask previousState) 500 s2
           in s3\<lparr>autoSaveTimeout := Some h\<rparr>))"

text \<open>
  The timer callback of \<open>handleNoteChange\<close>. With no current note, \<open>JSON.stringify(null)\<close>
  differs from the snapshot, the push happens, and \<open>updateNote(null)\<close> raises out of the
  callback.
\<close>

definition autoSaveCommit :: "note \<Rightarrow> ui \<Rightarrow> ui" where
  "autoSaveCommit previousState s =
     (if Some previousState \<noteq> currentNote s then
        (let s1 = s\<lparr>history := push previousState (history s)\<rparr> in
         case currentNote s1 of
           None \<Rightarrow> s1
         | Some cur \<Rightarrow>
             (case updateNote (clock s1) cur (noteManager s1) (storage s1) of
                (cur1, nm1, ls1) \<Rightarrow>
                  s1\<lparr>currentNote := Some cur1, noteManager := nm1, storage := ls1\<rparr>))
      else s)"

fun setContentFirst :: "nat \<Rightarrow> jstring \<Rightarrow> toggle list \<Rightarrow> toggle list" where
  "setContentFirst i v [] = []"
| "setContentFirst i v (t # ts) =
     (if tog_id t = i then t\<lparr>content := v\<rparr> # ts else t # setContentFirst i v ts)"

definition updateToggleContent :: "nat \<Rightarrow> jstring \<Rightarrow> ui \<Rightarrow> ui" where
  "updateToggleContent toggleId newContent s =
     (case currentNote s of
        None \<Rightarrow> s
      | Some cur \<Rightarrow>
          (let previousState = cur in
           case find (\<lambda>t. tog_id t = toggleId) (toggles cur) of
             None \<Rightarrow> s
           | Some _ \<Rightarrow>
               (let cur1 = cur\<lparr>toggles := setContentFirst toggleId newContent (toggles cur)\<rparr>;
                    h1 = push previousState (history s)
                in case updateNote (clock s) cur1 (noteManager s) (storage s) of
                     (cur2, nm1, ls1) \<Rightarrow>
                       s\<lparr>currentNote := Some cur2, history := h1,
                         noteManager := nm1, storage := ls1\<rparr>)))"

section \<open>Rendering (uiManager.js, \<open>saveEditorState\<close> and \<open>renderEditor\<close>)\<close>

definition saveEditorState :: "ui \<Rightarrow> ui" where
  "saveEditorState s =
     (case currentNote s of
        None \<Rightarrow> s
      | Some cur \<Rightarrow>
          (let d = document s;
               states = List.map_filter
                 (\<lambda>t. case querySelector (tog_id t) d of
                        None \<Rightarrow> None
                      | Some ta \<Rightarrow> Some (tog_id t, scrollTop ta, scrollHeight ta))
                 (toggles cur);
               s1 = s\<lparr>savedToggleStates := Some states\<rparr>
           in case editorContent d of
                None \<Rightarrow> s1
              | Some y \<Rightarrow> s1\<lparr>lastKnownScrollPosition := y\<rparr>))"

text \<open>
  The text a re-rendered textarea holds. \<open>renderEditor\<close> escapes the toggle's content
  (\<open>escapeHtml\<close>) and assigns the markup to \<open>innerHTML\<close>; the HTML parser undoes the
  escaping, but it first turns every CR LF pair and every other CR into LF, reads a
  U+0000 inside a textarea as U+FFFD, and drops one line feed that comes directly after
  the \<open>textarea\<close> start tag. Any other code unit comes back as it was.
\<close>

fun normalizeNewlines :: "jstring \<Rightarrow> jstring" where
  "normalizeNewlines [] = []"
| "normalizeNewlines [c] = [if c = 13 then 10 else c]"
| "normalizeNewlines (c # d # rest) =
     (if c = 13 \<and> d = 10 then 10 # normalizeNewlines rest
      else if c = 13 then 10 # normalizeNewlines (d # rest)
      else c # normalizeNewlines (d # rest))"

definition parsedTextareaValue :: "jstring \<Rightarrow> jstring" where
  "parsedTextareaValue str =
     (case map (\<lambda>c. if c = 0 then 65533 else c) (normalizeNewlines str) of
        [] \<Rightarrow> []
      | c # rest \<Rightarrow> if c = 10 then rest else c # rest)"

text \<open>
  The call \<open>renderEditor(false)\<close>, the only one the toggle path makes: the viewport state
  is saved, then all regions are destroyed and created anew from the note, each at
  scroll offset 0 with the height the browser lays it out with, holding the toggle's
  content as the parser hands it back.
\<close>

definition renderEditor :: "ui \<Rightarrow> ui" where
  "renderEditor s =
     (case currentNote s of
        None \<Rightarrow> s
      | Some cur \<Rightarrow>
          (let s1 = saveEditorState s;
               d = document s1
           in s1\<lparr>document := d\<lparr>
                textareas := map (\<lambda>t. (tog_id t,
                    \<lparr>ta_value = parsedTextareaValue (content t), scrollTop = 0,
                     scrollHeight = layout d (tog_id t)\<rparr>))
                  (toggles cur),
                renders := renders d + 1\<rparr>\<rparr>))"

section \<open>Toggle reconciliation (uiManager.js, \<open>toggleSection\<close> and \<open>_handleToggleSection\<close>)\<close>

definition toggleSection :: "nat \<Rightarrow> ui \<Rightarrow> ui" where
  "toggleSection toggleId s =
     (if currentNote s = None then s
      else
        (let s1 = (case toggleDebounce s of
                     None \<Rightarrow> s
                   | Some h \<Rightarrow> (clearTimeout h s)\<lparr>toggleDebounce := None\<rparr>);
             s2 = (case scrollRestoreTimeout s1 of
                     None \<Rightarrow> s1
                   | Some h \<Rightarrow> (clearTimeout h s1)\<lparr>scrollRestoreTimeout := None\<rparr>);
             (h, s3) = setTimeout (ToggleTask toggleId) 50 s2
         in s3\<lparr>toggleDebounce := Some h\<rparr>))"

definition captureScrollPositions :: "toggle list \<Rightarrow> dom \<Rightarrow> (nat \<times> scrollState) list" where
  "captureScrollPositions ts d =
     foldl (\<lambda>scrollPositions t.
              case querySelector (tog_id t) d of
                None \<Rightarrow> scrollPositions
              | Some ta \<Rightarrow>
                  map_set (tog_id t)
                    \<lparr>cap_scrollTop = scrollTop ta, cap_scrollHeight = scrollHeight ta,
                     cap_content = ta_value ta, contentHash = hashContent (ta_value ta)\<rparr>
                    scrollPositions)
       [] ts"

fun flipFirst :: "nat \<Rightarrow> toggle list \<Rightarrow> toggle list" where
  "flipFirst i [] = []"
| "flipFirst i (t # ts) =
     (if tog_id t = i then t\<lparr>isOpen := \<not> isOpen t\<rparr> # ts else t # flipFirst i ts)"

datatype error = ToggleNotFound

text \<open>
  The \<open>try\<close> block of \<open>_handleToggleSection\<close>, entered with the guard set. Its one \<open>throw\<close>
  comes before any mutation, so on \<open>Inl\<close> the state is still the one it was entered with.
\<close>

definition handleToggleSectionTry :: "nat \<Rightarrow> note \<Rightarrow> ui \<Rightarrow> error + ui" where
  "handleToggleSectionTry toggleId cur s =
     (let d = document s;
          editorScrollTop = (case editorContent d of None \<Rightarrow> 0 | Some y \<Rightarrow> y);
          scrollPositions = captureScrollPositions (toggles cur) d;
          previousState = cur
      in case find (\<lambda>t. tog_id t = toggleId) (toggles cur) of
           None \<Rightarrow> Inl ToggleNotFound
         | Some toggle0 \<Rightarrow>
             (let toggleScrollState = map_of scrollPositions toggleId;
                  cur1 = cur\<lparr>toggles := flipFirst toggleId (toggles cur)\<rparr>;
                  s1 = s\<lparr>history := push previousState (history s)\<rparr>
              in case updateNote (clock s1) cur1 (noteManager s1) (storage s1) of
                   (cur2, nm1, ls1) \<Rightarrow>
                     (let s2 = s1\<lparr>currentNote := Some cur2, noteManager := nm1, storage := ls1\<rparr>;
                          s3 = renderEditor s2;
                          closure =
                            \<lparr>c_editorPresent = (editorContent d \<noteq> None),
                             c_editorScrollTop = editorScrollTop,
                             c_scrollPositions = scrollPositions,
                             c_toggleId = toggleId,
                             c_toggleIsOpen = (\<not> isOpen toggle0),
                             c_toggleScrollState = toggleScrollState\<rparr>
                      in Inr (requestAnimationFrame (RestoreTask closure) s3))))"

definition handleToggleSection :: "nat \<Rightarrow> ui \<Rightarrow> ui" where
  "handleToggleSection toggleId s =
     (if isRestoring s then s
      else case currentNote s of
        None \<Rightarrow> s
      | Some cur \<Rightarrow>
          (let s1 = s\<lparr>isRestoring := True\<rparr>
           in case handleToggleSectionTry toggleId cur s1 of
                Inr s2 \<Rightarrow> s2
              | Inl err \<Rightarrow> s1\<lparr>isRestoring := False\<rparr>))"

text \<open>
  The arithmetic of \<open>Math.round(state.scrollTop * (textarea.scrollHeight /
  state.scrollHeight))\<close> on IEEE 754 doubles. A positive double is a pair \<open>(m, e)\<close> standing
  for \<open>m * 2^e\<close>, with \<open>m\<close> of at most 53 bits. \<open>toDouble p q\<close> is the double nearest to the
  exact quotient \<open>p / q\<close> (ties to the even mantissa), which is what a division and a
  multiplication of doubles return. Offsets and heights are integers below \<open>2^53\<close>, which
  doubles hold exactly, and nothing here leaves the range of normal doubles.
\<close>

fun bitLength :: "nat \<Rightarrow> nat" where
  "bitLength n = (if n = 0 then 0 else Suc (bitLength (n div 2)))"

declare bitLength.simps [simp del]

definition roundHalfEven :: "nat \<Rightarrow> nat \<Rightarrow> nat" where
  "roundHalfEven num den =
     (let q = num div den; r = num mod den
      in if 2 * r < den then q
         else if den < 2 * r then q + 1
         else if even q then q else q + 1)"

text \<open>\<open>p / q\<close> divided by \<open>2^e\<close>, as a fraction of natural numbers.\<close>

definition scaledBy :: "nat \<Rightarrow> nat \<Rightarrow> int \<Rightarrow> nat \<times> nat" where
  "scaledBy p q e = (if e \<le> 0 then (p * 2 ^ nat (- e), q) else (p, q * 2 ^ nat e))"

text \<open>
  For positive \<open>p\<close> and \<open>q\<close>: the exponent is chosen so that the quotient scaled by it lies
  between \<open>2^52\<close> and \<open>2^53\<close>, then the scaled quotient is rounded to an integer.
\<close>

definition toDouble :: "nat \<Rightarrow> nat \<Rightarrow> nat \<times> int" where
  "toDouble p q =
     (let d = int (bitLength p) - int (bitLength q);
          e = (if 2 ^ 53 \<le> fst (scaledBy p q (d - 53)) div snd (scaledBy p q (d - 53))
               then d - 52 else d - 53)
      in (roundHalfEven (fst (scaledBy p q e)) (snd (scaledBy p q e)), e))"

text \<open>The product of the integer \<open>a\<close> and the double \<open>x\<close>, rounded to a double.\<close>

definition timesDouble :: "nat \<Rightarrow> nat \<times> int \<Rightarrow> nat \<times> int" where
  "timesDouble a x =
     (if snd x \<le> 0 then toDouble (a * fst x) (2 ^ nat (- snd x))
      else toDouble (a * fst x * 2 ^ nat (snd x)) 1)"

text \<open>\<open>Math.round\<close>: the nearest integer, a tie going up.\<close>

definition mathRound :: "nat \<times> int \<Rightarrow> nat" where
  "mathRound x =
     (if 0 \<le> snd x then fst x * 2 ^ nat (snd x)
      else (2 * fst x + 2 ^ nat (- snd x)) div 2 ^ nat (1 - snd x))"

text \<open>
  With a zero among the three numbers the product is 0, infinite or NaN; \<open>Math.round\<close>
  keeps it, and an assignment to \<open>scrollTop\<close> takes any of them as 0.
\<close>

definition rescale :: "nat \<Rightarrow> nat \<Rightarrow> nat \<Rightarrow> nat" where
  "rescale capTop capHeight liveHeight =
     (if capHeight = 0 \<or> capTop = 0 \<or> liveHeight = 0 then 0
      else mathRound (timesDouble capTop (toDouble liveHeight capHeight)))"

text \<open>The \<open>if\<close>/\<open>else\<close> written out twice in the first pass (lines 469-474, 477-482).\<close>

definition rescaleScrollTop :: "scrollState \<Rightarrow> textarea \<Rightarrow> textarea" where
  "rescaleScrollTop state ta =
     (if cap_scrollHeight state \<noteq> scrollHeight ta
      then ta\<lparr>scrollTop := rescale (cap_scrollTop state) (cap_scrollHeight state) (scrollHeight ta)\<rparr>
      else ta\<lparr>scrollTop := cap_scrollTop state\<rparr>)"

text \<open>One round of \<open>scrollPositions.forEach\<close> in the first pass.\<close>

definition restoreRegion :: "restoreClosure \<Rightarrow> ui \<Rightarrow> nat \<times> scrollState \<Rightarrow> ui" where
  "restoreRegion c s entry =
     (let i = fst entry; state = snd entry in
      case querySelector i (document s) of
        None \<Rightarrow> s
      | Some ta \<Rightarrow>
          if hashContent (ta_value ta) = contentHash state then
            (if i = c_toggleId c \<and> c_toggleIsOpen c then
               requestAnimationFrame (RescaleTask (renders (document s)) i state) s
             else if i \<noteq> c_toggleId c then
               s\<lparr>document := modifyTextarea i (rescaleScrollTop state) (document s)\<rparr>
             else s)
          else s)"

text \<open>
  The first pass, run on the animation frame after the render. None of the property
  reads and writes in its \<open>try\<close> block raises on this document, so its \<open>catch\<close> is not
  entered.
\<close>

definition restorePass1 :: "restoreClosure \<Rightarrow> ui \<Rightarrow> ui" where
  "restorePass1 c s =
     (let s1 = (if c_editorPresent c
                then s\<lparr>document := (document s)\<lparr>editorContent :=
                         map_option (\<lambda>_. c_editorScrollTop c) (editorContent (document s))\<rparr>\<rparr>
                else s);
          s2 = foldl (restoreRegion c) s1 (c_scrollPositions c);
          (h, s3) = setTimeout (FinalCheckTask c) 100 s2
      in s3\<lparr>scrollRestoreTimeout := Some h\<rparr>)"

text \<open>The deferred write of the first pass to the just opened region, one frame later.\<close>

definition rescaleTarget :: "nat \<Rightarrow> nat \<Rightarrow> scrollState \<Rightarrow> ui \<Rightarrow> ui" where
  "rescaleTarget generation i state s =
     (if renders (document s) = generation
      then s\<lparr>document := modifyTextarea i (rescaleScrollTop state) (document s)\<rparr>
      else s)"

text \<open>One round of \<open>scrollPositions.forEach\<close> in the second pass.\<close>

definition finalCheckRegion :: "restoreClosure \<Rightarrow> ui \<Rightarrow> nat \<times> scrollState \<Rightarrow> ui" where
  "finalCheckRegion c s entry =
     (let i = fst entry; state = snd entry in
      if i \<noteq> c_toggleId c then
        (case querySelector i (document s) of
           None \<Rightarrow> s
         | Some ta \<Rightarrow>
             if hashContent (ta_value ta) = contentHash state
             then s\<lparr>document :=
                     modifyTextarea i (\<lambda>ta. ta\<lparr>scrollTop := cap_scrollTop state\<rparr>) (document s)\<rparr>
             else s)
      else s)"

text \<open>
  The second pass, run by the timer the first pass armed; its \<open>finally\<close> releases the
  guard. (\<open>scrollPositions.clear()\<close> empties a map no later callback reads.)
\<close>

definition finalScrollCheck :: "restoreClosure \<Rightarrow> ui \<Rightarrow> ui" where
  "finalScrollCheck c s =
     (let s1 = (if c_toggleIsOpen c then
                  (case c_toggleScrollState c of
                     None \<Rightarrow> s
                   | Some toggleScrollState \<Rightarrow>
                       (case querySelector (c_toggleId c) (document s) of
                          None \<Rightarrow> s
                        | Some ta \<Rightarrow>
                            if hashContent (ta_value ta) = contentHash toggleScrollState
                            then s\<lparr>document := modifyTextarea (c_toggleId c)
                                    (\<lambda>ta. ta\<lparr>scrollTop := cap_scrollTop toggleScrollState\<rparr>)
                                    (document s)\<rparr>
                            else s))
                else s);
          s2 = foldl (finalCheckRegion c) s1 (c_scrollPositions c)
      in s2\<lparr>isRestoring := False\<rparr>)"

definition resetScrollPositions :: "ui \<Rightarrow> ui" where
  "resetScrollPositions s =
     (let d = document s
      in s\<lparr>document := d\<lparr>editorContent := map_option (\<lambda>_. 0) (editorContent d),
                          textareas := map (\<lambda>(i, ta). (i, ta\<lparr>scrollTop := 0\<rparr>)) (textareas d)\<rparr>\<rparr>)"

section \<open>The event loop\<close>

fun runTask :: "task \<Rightarrow> ui \<Rightarrow> ui" where
  "runTask (ToggleTask toggleId) s = handleToggleSection toggleId s"
| "runTask (AutoSaveTask previousState) s = autoSaveCommit previousState s"
| "runTask (FinalCheckTask c) s = finalScrollCheck c s"

fun runFrameTask :: "frameTask \<Rightarrow> ui \<Rightarrow> ui" where
  "runFrameTask (RestoreTask c) s = restorePass1 c s"
| "runFrameTask (RescaleTask generation i state) s = rescaleTarget generation i state s"

text \<open>A timer fires if it is still pending: it leaves the table, then its callback runs.\<close>

definition fireTimer :: "nat \<Rightarrow> ui \<Rightarrow> ui" where
  "fireTimer handle s =
     (case map_of (timers s) handle of
        None \<Rightarrow> s
      | Some (due, callback) \<Rightarrow> runTask callback (clearTimeout handle s))"

text \<open>
  One millisecond passes: the timers now due fire in the order they were set. Every
  delay in the program is positive, so a timer set by a callback is never due in the
  millisecond in which it is set.
\<close>

definition tick :: "ui \<Rightarrow> ui" where
  "tick s =
     (let s1 = s\<lparr>clock := clock s + 1\<rparr>;
          dueNow = map fst (filter (\<lambda>t. fst (snd t) \<le> clock s1) (timers s1))
      in foldl (\<lambda>s' handle. fireTimer handle s') s1 dueNow)"

fun elapse :: "nat \<Rightarrow> ui \<Rightarrow> ui" where
  "elapse 0 s = s"
| "elapse (Suc d) s = elapse d (tick s)"

text \<open>
  An animation frame: the callbacks queued before it run in order; a callback queued by
  one of them waits for the next frame.
\<close>

definition animationFrame :: "ui \<Rightarrow> ui" where
  "animationFrame s =
     foldl (\<lambda>s' callback. runFrameTask callback s') (s\<lparr>frames := []\<rparr>) (frames s)"

text \<open>
  What can happen to the page: the user types in the title input or in a region, clicks
  a toggle header, scrolls a region; the browser lays a region out with another height;
  time passes; an animation frame comes. The listeners are those of
  \<open>attachEventListeners\<close> and \<open>attachToggleEventListeners\<close>.
\<close>

datatype event =
    TitleInput jstring
  | TextareaInput nat jstring
  | HeaderClick nat
  | Scroll nat nat
  | Reflow nat nat
  | Elapse nat
  | Frame

fun step :: "event \<Rightarrow> ui \<Rightarrow> ui" where
  "step (TitleInput v) s = handleNoteChange (True, v) s"
| "step (TextareaInput i v) s =
     updateToggleContent i v
       (s\<lparr>document := modifyTextarea i (\<lambda>ta. ta\<lparr>ta_value := v\<rparr>) (document s)\<rparr>)"
| "step (HeaderClick i) s = toggleSection i s"
| "step (Scroll i y) s =
     s\<lparr>document := modifyTextarea i (\<lambda>ta. ta\<lparr>scrollTop := y\<rparr>) (document s)\<rparr>"
| "step (Reflow i h) s =
     s\<lparr>document := (modifyTextarea i (\<lambda>ta. ta\<lparr>scrollHeight := h\<rparr>) (document s))
          \<lparr>layout := (layout (document s))(i := h)\<rparr>\<rparr>"
| "step (Elapse d) s = elapse d s"
| "step Frame s = animationFrame s"

fun run :: "event list \<Rightarrow> ui \<Rightarrow> ui" where
  "run [] s = s"
| "run (e # es) s = run es (step e s)"

section \<open>Specification predicates and example states\<close>

text \<open>
  A region is stale for a restore callback when it is rendered and its live text hashes
  to something other than every hash the callback holds for it.
\<close>

definition staleRegion :: "nat \<Rightarrow> restoreClosure \<Rightarrow> ui \<Rightarrow> bool" where
  "staleRegion i c s =
     (case querySelector i (document s) of
        None \<Rightarrow> False
      | Some ta \<Rightarrow>
          list_all (\<lambda>entry. fst entry \<noteq> i \<or> contentHash (snd entry) \<noteq> hashContent (ta_value ta))
            (c_scrollPositions c)
          \<and> (case c_toggleScrollState c of
                None \<Rightarrow> True
              | Some state \<Rightarrow>
                  c_toggleId c \<noteq> i \<or> contentHash state \<noteq> hashContent (ta_value ta)))"

text \<open>
  The closure \<open>_handleToggleSection\<close> hands to its restore callbacks when it toggles
  \<open>i\<close> in note \<open>n\<close> (found as \<open>t0\<close>) over document \<open>d\<close>.
\<close>

definition closureOf :: "nat \<Rightarrow> note \<Rightarrow> toggle \<Rightarrow> dom \<Rightarrow> restoreClosure" where
  "closureOf i n t0 d =
     \<lparr>c_editorPresent = (editorContent d \<noteq> None),
      c_editorScrollTop = (case editorContent d of None \<Rightarrow> 0 | Some y \<Rightarrow> y),
      c_scrollPositions = captureScrollPositions (toggles n) d,
      c_toggleId = i,
      c_toggleIsOpen = (\<not> isOpen t0),
      c_toggleScrollState = map_of (captureScrollPositions (toggles n) d) i\<rparr>"

text \<open>The deferred writes to region \<open>i\<close> among queued animation-frame callbacks.\<close>

fun deferredWritesTo :: "nat \<Rightarrow> frameTask list \<Rightarrow> frameTask list" where
  "deferredWritesTo i [] = []"
| "deferredWritesTo i (RescaleTask generation j state # rest) =
     (if j = i then RescaleTask generation j state # deferredWritesTo i rest
      else deferredWritesTo i rest)"
| "deferredWritesTo i (RestoreTask c # rest) = deferredWritesTo i rest"

text \<open>
  The guard is stuck when it is held and nothing pending can release it: no second pass
  waits for a timer and no first pass waits for a frame. \<open>openFlags\<close> reads the
  open/closed flags of the current note's toggles.
\<close>

fun isRescaleTask :: "frameTask \<Rightarrow> bool" where
  "isRescaleTask (RescaleTask generation i state) = True"
| "isRescaleTask (RestoreTask c) = False"

fun isFinalCheckTask :: "task \<Rightarrow> bool" where
  "isFinalCheckTask (FinalCheckTask c) = True"
| "isFinalCheckTask (ToggleTask i) = False"
| "isFinalCheckTask (AutoSaveTask p) = False"

definition guardStuck :: "ui \<Rightarrow> bool" where
  "guardStuck s =
     (isRestoring s
      \<and> list_all (\<lambda>t. \<not> isFinalCheckTask (snd (snd t))) (timers s)
      \<and> list_all isRescaleTask (frames s))"

definition openFlags :: "ui \<Rightarrow> bool list option" where
  "openFlags s = map_option (\<lambda>n. map isOpen (toggles n)) (currentNote s)"

text \<open>
  A burst of title edits: a first value, then each further value after a pause shorter
  than the 500 ms of the commit timer, then 500 ms of quiet.
\<close>

fun burstTail :: "(nat \<times> jstring) list \<Rightarrow> event list" where
  "burstTail [] = [Elapse 500]"
| "burstTail ((gap, v) # rest) = Elapse gap # TitleInput v # burstTail rest"

definition burst :: "jstring \<Rightarrow> (nat \<times> jstring) list \<Rightarrow> event list" where
  "burst v rest = TitleInput v # burstTail rest"

text \<open>
  An open editor: a note with a closed first region and an open second one that is
  scrolled to 100 of 200, the container scrolled to 30, nothing pending.
\<close>

definition note0 :: "note" where
  "note0 = \<lparr>note_id = 7, title = [], toggles =
      [\<lparr>tog_id = 1, tog_title = [], content = [97], isOpen = False\<rparr>,
       \<lparr>tog_id = 2, tog_title = [], content = [98, 99], isOpen = True\<rparr>],
     created = 0, updated = 0\<rparr>"

definition ui0 :: ui where
  "ui0 = \<lparr>currentNote = Some note0, autoSaveTimeout = None, lastKnownScrollPosition = 0,
     savedToggleStates = None, isRestoring = False, toggleDebounce = None,
     scrollRestoreTimeout = None,
     history = \<lparr>undoStack = [], redoStack = [], notifications = []\<rparr>,
     noteManager = \<lparr>notes = [note0]\<rparr>,
     storage = \<lparr>items = [], setItemCalls = 0, quotaExceeded = False\<rparr>,
     document = \<lparr>editorContent = Some 30,
       textareas = [(1, \<lparr>ta_value = [97], scrollTop = 0, scrollHeight = 200\<rparr>),
                    (2, \<lparr>ta_value = [98, 99], scrollTop = 100, scrollHeight = 200\<rparr>)],
       renders = 1, layout = (\<lambda>_. 200)\<rparr>,
     clock = 1000, handlesIssued = 0, timers = [], frames = []\<rparr>"

text \<open>
  What a reconciliation of toggle 1 started in \<open>ui0\<close> hands to its restore callbacks.
\<close>

definition closure0 :: restoreClosure where
  "closure0 =
     \<lparr>c_editorPresent = True, c_editorScrollTop = 30,
      c_scrollPositions =
        [(1, \<lparr>cap_scrollTop = 0, cap_scrollHeight = 200, cap_content = [97], contentHash = 97\<rparr>),
         (2, \<lparr>cap_scrollTop = 100, cap_scrollHeight = 200, cap_content = [98, 99],
              contentHash = 3137\<rparr>)],
      c_toggleId = 1, c_toggleIsOpen = True,
      c_toggleScrollState =
        Some \<lparr>cap_scrollTop = 0, cap_scrollHeight = 200, cap_content = [97], contentHash = 97\<rparr>\<rparr>"

text \<open>
  The same editor in the middle of a reconciliation of toggle 1, after the user has
  retyped the second region and scrolled it to 5.
\<close>

definition ui1 :: ui where
  "ui1 = ui0\<lparr>isRestoring := True,
     document := (document ui0)\<lparr>textareas :=
       [(1, \<lparr>ta_value = [97], scrollTop = 0, scrollHeight = 200\<rparr>),
        (2, \<lparr>ta_value = [98, 99, 100], scrollTop = 5, scrollHeight = 200\<rparr>)]\<rparr>\<rparr>"

section \<open>The content hash\<close>

lemma toInt32_sint: "toInt32 x = sint (word_of_int x :: 32 word)"
  by (simp add: toInt32_def signed_of_int signed_take_bit_eq_take_bit_shift take_bit_eq_mod)

lemma hashStep_word: "hashStep (sint (h :: 32 word)) c = sint (h * 31 + ucast c)"
proof -
  have a: "(word_of_int (sint h * 32) :: 32 word) = h * 32"
    by simp
  have "(word_of_int (sint (word_of_int (sint h * 32) :: 32 word) - sint h + uint c) :: 32 word)
        = word_of_int (sint (word_of_int (sint h * 32) :: 32 word)) - word_of_int (sint h)
          + word_of_int (uint c)"
    by (simp only: of_int_add of_int_diff)
  also have "\<dots> = h * 32 - h + ucast c"
    by (simp add: a)
  also have "\<dots> = h * 31 + ucast c"
    by simp
  finally have "(word_of_int (sint (word_of_int (sint h * 32) :: 32 word) - sint h + uint c) :: 32 word)
        = h * 31 + ucast c" .
  then show ?thesis
    by (simp add: hashStep_def Let_def toInt32_sint mult.commute)
qed

lemma foldl_hashStep_word:
  "foldl hashStep (sint (h :: 32 word)) str = sint (foldl (\<lambda>h c. h * 31 + ucast c) h str)"
  by (induction str arbitrary: h) (simp_all add: hashStep_word)

text \<open>
  C10. \<open>_hashContent\<close> is a total function of the string alone (it takes no state): on
  every string it returns a number in the signed 32-bit range, namely the two's
  complement reading of the wrapping recurrence \<open>h := 31 * h + c\<close> started at 0; it is 0
  on the empty string, and equal strings have equal hashes.
\<close>

theorem hashContent_int32:
  "hashContent [] = 0
   \<and> - (2 ^ 31) \<le> hashContent str \<and> hashContent str < 2 ^ 31
   \<and> hashContent str = sint (hashWord str)
   \<and> (str' = str \<longrightarrow> hashContent str' = hashContent str)"
proof -
  have eq: "hashContent str = sint (hashWord str)"
    using foldl_hashStep_word [of 0 str] by (simp add: hashContent_def hashWord_def)
  have "- (2 ^ 31) \<le> sint (hashWord str)"
    using sint_ge [of "hashWord str"] by simp
  moreover have "sint (hashWord str) < 2 ^ 31"
    using sint_lt [of "hashWord str"] by simp
  ultimately show ?thesis
    using eq by (simp add: hashContent_def)
qed

theorem hashContent_int32_witness:
  "hashContent [] = 0
   \<and> hashContent [72, 101, 108, 108, 111, 44, 32, 119, 111, 114, 108, 100] = - 476288596
   \<and> sint (hashWord [72, 101, 108, 108, 111, 44, 32, 119, 111, 114, 108, 100]) = - 476288596
   \<and> - (2 ^ 31) \<le> (- 476288596 :: int) \<and> (- 476288596 :: int) < 2 ^ 31"
proof -
  have e: "hashContent [72, 101, 108, 108, 111, 44, 32, 119, 111, 114, 108, 100] = - 476288596"
    by (simp add: hashContent_def hashStep_def toInt32_def)
  show ?thesis
    using hashContent_int32 [of "[72, 101, 108, 108, 111, 44, 32, 119, 111, 114, 108, 100]"
        "[72, 101, 108, 108, 111, 44, 32, 119, 111, 114, 108, 100]"] e
    by simp
qed

section \<open>HistoryManager\<close>

text \<open>
  C2. Undo/redo inverse law: after \<open>push(A)\<close>, \<open>undo(B)\<close> returns \<open>A\<close> and \<open>canRedo\<close> holds;
  \<open>redo(A)\<close> then returns \<open>B\<close> and leaves the stacks as they were after the push. On an
  empty undo stack \<open>undo\<close> returns \<open>null\<close> and the manager is unchanged.
\<close>

theorem undo_redo_inverse:
  "fst (undo B (push A h)) = Some A
   \<and> canRedo (snd (undo B (push A h)))
   \<and> fst (redo A (snd (undo B (push A h)))) = Some B
   \<and> undoStack (snd (redo A (snd (undo B (push A h))))) = A # undoStack h
   \<and> redoStack (snd (redo A (snd (undo B (push A h))))) = []
   \<and> (undoStack h = [] \<longrightarrow> undo B h = (None, h))"
  by (simp add: undo_def redo_def push_def notify_def canRedo_def)

theorem undo_redo_inverse_witness:
  "fst (undo (note0\<lparr>title := [66]\<rparr>) (push (note0\<lparr>title := [65]\<rparr>) (history ui0)))
     = Some (note0\<lparr>title := [65]\<rparr>)
   \<and> fst (redo (note0\<lparr>title := [65]\<rparr>)
        (snd (undo (note0\<lparr>title := [66]\<rparr>) (push (note0\<lparr>title := [65]\<rparr>) (history ui0)))))
     = Some (note0\<lparr>title := [66]\<rparr>)
   \<and> undoStack (history ui0) = []
   \<and> undo (note0\<lparr>title := [66]\<rparr>) (history ui0) = (None, history ui0)"
  using undo_redo_inverse [of "note0\<lparr>title := [66]\<rparr>" "note0\<lparr>title := [65]\<rparr>" "history ui0"]
  by (simp add: ui0_def)

section \<open>NoteManager\<close>

lemma findIndex_None: "findIndex P xs = None \<longleftrightarrow> (\<forall>x \<in> set xs. \<not> P x)"
  by (induction xs) auto

text \<open>
  C9. \<open>updateNote\<close> on a note whose id is not the id of any stored note: the list of
  notes and the storage (its items and the number of \<open>setItem\<close> calls) are unchanged; the
  only effect is the new \<open>updated\<close> stamp on the note passed in.
\<close>

theorem updateNote_unknown_id:
  assumes "note_id n \<notin> note_id ` set (notes nm)"
  shows "updateNote now n nm ls = (n\<lparr>updated := now\<rparr>, nm, ls)"
proof -
  have "findIndex (\<lambda>m. note_id m = note_id n) (notes nm) = None"
    unfolding findIndex_None
  proof
    fix m assume "m \<in> set (notes nm)"
    then have "note_id m \<in> note_id ` set (notes nm)" by (rule imageI)
    with assms show "note_id m \<noteq> note_id n" by auto
  qed
  then show ?thesis
    by (simp add: updateNote_def)
qed

theorem updateNote_unknown_id_witness:
  "note_id (note0\<lparr>note_id := 8\<rparr>) \<notin> note_id ` set (notes (noteManager ui0))
   \<and> updateNote 1234 (note0\<lparr>note_id := 8\<rparr>) (noteManager ui0) (storage ui0)
       = (note0\<lparr>note_id := 8, updated := 1234\<rparr>, noteManager ui0, storage ui0)"
  using updateNote_unknown_id [of "note0\<lparr>note_id := 8\<rparr>" "noteManager ui0" 1234 "storage ui0"]
  by (simp add: ui0_def note0_def)

section \<open>The event loop and the toggle debounce\<close>

lemma elapse_add: "elapse (a + b) s = elapse b (elapse a s)"
  by (induction a arbitrary: s) simp_all

lemma tick_idle:
  assumes "\<forall>t \<in> set (timers s). Suc (clock s) < fst (snd t)"
  shows "tick s = s\<lparr>clock := Suc (clock s)\<rparr>"
proof -
  have "filter (\<lambda>t. fst (snd t) \<le> Suc (clock s)) (timers s) = []"
    using assms by (auto simp: filter_empty_conv)
  then show ?thesis by (simp add: tick_def)
qed

lemma elapse_idle:
  "\<forall>t \<in> set (timers s). clock s + d < fst (snd t) \<Longrightarrow> elapse d s = s\<lparr>clock := clock s + d\<rparr>"
proof (induction d arbitrary: s)
  case 0
  show ?case by simp
next
  case (Suc d)
  have t: "tick s = s\<lparr>clock := Suc (clock s)\<rparr>"
    using Suc.prems by (intro tick_idle) auto
  have "elapse d (s\<lparr>clock := Suc (clock s)\<rparr>) = (s\<lparr>clock := Suc (clock s)\<rparr>)\<lparr>clock := clock (s\<lparr>clock := Suc (clock s)\<rparr>) + d\<rparr>"
    using Suc.prems by (intro Suc.IH) auto
  then show ?case by (simp add: t)
qed

lemma tick_fire:
  assumes "timers s = [(h, Suc (clock s), callback)]"
  shows "tick s = runTask callback (s\<lparr>clock := Suc (clock s), timers := []\<rparr>)"
  using assms by (simp add: tick_def fireTimer_def clearTimeout_def)

lemma elapse_fire:
  assumes "timers s = [(h, clock s + Suc d, callback)]"
  shows "elapse (Suc d) s = runTask callback (s\<lparr>clock := clock s + Suc d, timers := []\<rparr>)"
proof -
  have "elapse (Suc d) s = tick (elapse d s)"
    using elapse_add [of d 1 s] by simp
  also have "elapse d s = s\<lparr>clock := clock s + d\<rparr>"
    using assms by (intro elapse_idle) simp
  also have "tick (s\<lparr>clock := clock s + d\<rparr>) = runTask callback (s\<lparr>clock := clock s + d\<rparr>\<lparr>clock := Suc (clock (s\<lparr>clock := clock s + d\<rparr>)), timers := []\<rparr>)"
    using assms by (intro tick_fire [where h = h]) simp
  finally show ?thesis by simp
qed



lemma toggleSection_clears:
  assumes "currentNote s \<noteq> None"
    and "\<forall>t \<in> set (timers s).
           Some (fst t) = toggleDebounce s \<or> Some (fst t) = scrollRestoreTimeout s"
  shows "toggleSection i s =
    s\<lparr>toggleDebounce := Some (Suc (handlesIssued s)), scrollRestoreTimeout := None,
      handlesIssued := Suc (handlesIssued s),
      timers := [(Suc (handlesIssued s), clock s + 50, ToggleTask i)]\<rparr>"
proof -
  obtain n where n: "currentNote s = Some n"
    using assms(1) by auto
  show ?thesis
  proof (cases "toggleDebounce s")
    case None
    note td = this
    show ?thesis
    proof (cases "scrollRestoreTimeout s")
      case None
      have "timers s = []"
        using assms(2) td None by (cases "timers s") auto
      then show ?thesis
        using n td None
        by (cases s) (simp add: toggleSection_def clearTimeout_def setTimeout_def)
    next
      case (Some h2)
      have "filter (\<lambda>t. fst t \<noteq> h2) (timers s) = []"
        using assms(2) td Some by (auto simp: filter_empty_conv)
      then show ?thesis
        using n td Some
        by (cases s) (simp add: toggleSection_def clearTimeout_def setTimeout_def)
    qed
  next
    case (Some h1)
    note td = this
    show ?thesis
    proof (cases "scrollRestoreTimeout s")
      case None
      have "filter (\<lambda>t. fst t \<noteq> h1) (timers s) = []"
        using assms(2) td None by (auto simp: filter_empty_conv)
      then show ?thesis
        using n td None
        by (cases s) (simp add: toggleSection_def clearTimeout_def setTimeout_def)
    next
      case (Some h2)
      have "filter (\<lambda>t. fst t \<noteq> h1 \<and> fst t \<noteq> h2) (timers s) = []"
        using assms(2) td Some by (auto simp: filter_empty_conv)
      then show ?thesis
        using n td Some
        by (cases s) (simp add: toggleSection_def clearTimeout_def setTimeout_def conj_commute)
    qed
  qed
qed


lemma updateNote_fst: "fst (updateNote now n nm ls) = n\<lparr>updated := now\<rparr>"
  by (simp add: updateNote_def Let_def split: option.splits)

lemma renderEditor_fields:
  assumes "currentNote s = Some n"
  shows "history (renderEditor s) = history s"
    and "currentNote (renderEditor s) = currentNote s"
    and "isRestoring (renderEditor s) = isRestoring s"
    and "timers (renderEditor s) = timers s"
    and "frames (renderEditor s) = frames s"
    and "clock (renderEditor s) = clock s"
    and "handlesIssued (renderEditor s) = handlesIssued s"
    and "toggleDebounce (renderEditor s) = toggleDebounce s"
    and "scrollRestoreTimeout (renderEditor s) = scrollRestoreTimeout s"
    and "autoSaveTimeout (renderEditor s) = autoSaveTimeout s"
    and "renders (document (renderEditor s)) = Suc (renders (document s))"
    and "editorContent (document (renderEditor s)) = editorContent (document s)"
    and "textareas (document (renderEditor s)) =
           map (\<lambda>t. (tog_id t, \<lparr>ta_value = parsedTextareaValue (content t), scrollTop = 0,
                                 scrollHeight = layout (document s) (tog_id t)\<rparr>)) (toggles n)"
  using assms
  by (simp_all add: renderEditor_def saveEditorState_def Let_def split: option.splits)

lemma handleToggleSection_fields:
  assumes "currentNote s = Some n" "\<not> isRestoring s"
    and "find (\<lambda>t. tog_id t = i) (toggles n) = Some t0"
  shows "undoStack (history (handleToggleSection i s)) = n # undoStack (history s)"
    and "redoStack (history (handleToggleSection i s)) = []"
    and "notifications (history (handleToggleSection i s))
           = (True, False) # notifications (history s)"
    and "currentNote (handleToggleSection i s)
           = Some (n\<lparr>toggles := flipFirst i (toggles n), updated := clock s\<rparr>)"
    and "isRestoring (handleToggleSection i s)"
    and "timers (handleToggleSection i s) = timers s"
    and "frames (handleToggleSection i s)
           = frames s @ [RestoreTask (closureOf i n t0 (document s))]"
    and "clock (handleToggleSection i s) = clock s"
    and "handlesIssued (handleToggleSection i s) = handlesIssued s"
    and "toggleDebounce (handleToggleSection i s) = toggleDebounce s"
    and "scrollRestoreTimeout (handleToggleSection i s) = scrollRestoreTimeout s"
    and "renders (document (handleToggleSection i s)) = Suc (renders (document s))"
proof -
  obtain cur2 nm1 ls1 where u: "updateNote (clock s)
      (n\<lparr>toggles := flipFirst i (toggles n)\<rparr>) (noteManager s) (storage s) = (cur2, nm1, ls1)"
    by (cases "updateNote (clock s) (n\<lparr>toggles := flipFirst i (toggles n)\<rparr>)
          (noteManager s) (storage s)") auto
  have c2: "cur2 = n\<lparr>toggles := flipFirst i (toggles n), updated := clock s\<rparr>"
    using updateNote_fst [of "clock s" "n\<lparr>toggles := flipFirst i (toggles n)\<rparr>"
        "noteManager s" "storage s"] u by simp
  define s2 where "s2 = s\<lparr>isRestoring := True, history := push n (history s),
     currentNote := Some cur2, noteManager := nm1, storage := ls1\<rparr>"
  have r: "handleToggleSection i s
      = requestAnimationFrame (RestoreTask (closureOf i n t0 (document s))) (renderEditor s2)"
    using assms u
    by (simp add: handleToggleSection_def handleToggleSectionTry_def Let_def closureOf_def s2_def)
  have cn: "currentNote s2 = Some cur2" by (simp add: s2_def)
  have s2f: "history s2 = push n (history s)" "isRestoring s2" "timers s2 = timers s"
    "frames s2 = frames s" "clock s2 = clock s" "handlesIssued s2 = handlesIssued s"
    "toggleDebounce s2 = toggleDebounce s" "scrollRestoreTimeout s2 = scrollRestoreTimeout s"
    "document s2 = document s"
    by (simp_all add: s2_def)
  note rf = renderEditor_fields [OF cn]
  show "undoStack (history (handleToggleSection i s)) = n # undoStack (history s)"
    by (simp add: r requestAnimationFrame_def rf s2f push_def notify_def)
  show "redoStack (history (handleToggleSection i s)) = []"
    by (simp add: r requestAnimationFrame_def rf s2f push_def notify_def)
  show "notifications (history (handleToggleSection i s))
           = (True, False) # notifications (history s)"
    by (simp add: r requestAnimationFrame_def rf s2f push_def notify_def canUndo_def canRedo_def)
  show "currentNote (handleToggleSection i s)
           = Some (n\<lparr>toggles := flipFirst i (toggles n), updated := clock s\<rparr>)"
    by (simp add: r requestAnimationFrame_def rf cn c2)
  show "isRestoring (handleToggleSection i s)"
    by (simp add: r requestAnimationFrame_def rf s2f)
  show "timers (handleToggleSection i s) = timers s"
    by (simp add: r requestAnimationFrame_def rf s2f)
  show "frames (handleToggleSection i s)
           = frames s @ [RestoreTask (closureOf i n t0 (document s))]"
    by (simp add: r requestAnimationFrame_def rf s2f)
  show "clock (handleToggleSection i s) = clock s"
    by (simp add: r requestAnimationFrame_def rf s2f)
  show "handlesIssued (handleToggleSection i s) = handlesIssued s"
    by (simp add: r requestAnimationFrame_def rf s2f)
  show "toggleDebounce (handleToggleSection i s) = toggleDebounce s"
    by (simp add: r requestAnimationFrame_def rf s2f)
  show "scrollRestoreTimeout (handleToggleSection i s) = scrollRestoreTimeout s"
    by (simp add: r requestAnimationFrame_def rf s2f)
  show "renders (document (handleToggleSection i s)) = Suc (renders (document s))"
    by (simp add: r requestAnimationFrame_def rf s2f)
qed


lemma find_split:
  assumes "list_all (\<lambda>x. tog_id x \<noteq> b) pre" and "tog_id t = b"
  shows "find (\<lambda>x. tog_id x = b) (pre @ t # post) = Some t"
  using assms by (induction pre) simp_all

lemma flipFirst_split:
  assumes "list_all (\<lambda>x. tog_id x \<noteq> b) pre" and "tog_id t = b"
  shows "flipFirst b (pre @ t # post) = pre @ t\<lparr>isOpen := \<not> isOpen t\<rparr> # post"
  using assms by (induction pre) simp_all

lemma map_region_flipFirst:
  "map (\<lambda>x. (tog_id x, f (content x) (tog_id x))) (flipFirst b ts)
     = map (\<lambda>x. (tog_id x, f (content x) (tog_id x))) ts"
  by (induction ts) simp_all

lemma handleToggleSection_document:
  assumes "currentNote s = Some n" "\<not> isRestoring s"
    and "find (\<lambda>t. tog_id t = i) (toggles n) = Some t0"
  shows "textareas (document (handleToggleSection i s))
           = map (\<lambda>x. (tog_id x, \<lparr>ta_value = parsedTextareaValue (content x), scrollTop = 0,
                                  scrollHeight = layout (document s) (tog_id x)\<rparr>)) (toggles n)"
    and "editorContent (document (handleToggleSection i s)) = editorContent (document s)"
proof -
  obtain cur2 nm1 ls1 where u: "updateNote (clock s)
      (n\<lparr>toggles := flipFirst i (toggles n)\<rparr>) (noteManager s) (storage s) = (cur2, nm1, ls1)"
    by (cases "updateNote (clock s) (n\<lparr>toggles := flipFirst i (toggles n)\<rparr>)
          (noteManager s) (storage s)") auto
  have c2: "cur2 = n\<lparr>toggles := flipFirst i (toggles n), updated := clock s\<rparr>"
    using updateNote_fst [of "clock s" "n\<lparr>toggles := flipFirst i (toggles n)\<rparr>"
        "noteManager s" "storage s"] u by simp
  define s2 where "s2 = s\<lparr>isRestoring := True, history := push n (history s),
     currentNote := Some cur2, noteManager := nm1, storage := ls1\<rparr>"
  have r: "handleToggleSection i s
      = requestAnimationFrame (RestoreTask (closureOf i n t0 (document s))) (renderEditor s2)"
    using assms u
    by (simp add: handleToggleSection_def handleToggleSectionTry_def Let_def closureOf_def s2_def)
  have cn: "currentNote s2 = Some cur2" by (simp add: s2_def)
  have d2: "document s2 = document s" by (simp add: s2_def)
  note rf = renderEditor_fields [OF cn]
  have "textareas (document (handleToggleSection i s))
      = map (\<lambda>x. (tog_id x, \<lparr>ta_value = parsedTextareaValue (content x), scrollTop = 0,
                       scrollHeight = layout (document s) (tog_id x)\<rparr>)) (flipFirst i (toggles n))"
    by (simp add: r requestAnimationFrame_def rf d2 c2)
  also have "\<dots> = map (\<lambda>x. (tog_id x, \<lparr>ta_value = parsedTextareaValue (content x), scrollTop = 0,
                       scrollHeight = layout (document s) (tog_id x)\<rparr>)) (toggles n)"
    by (rule map_region_flipFirst
        [of "\<lambda>c i. \<lparr>ta_value = parsedTextareaValue c, scrollTop = 0,
                     scrollHeight = layout (document s) i\<rparr>"])
  finally show "textareas (document (handleToggleSection i s))
           = map (\<lambda>x. (tog_id x, \<lparr>ta_value = parsedTextareaValue (content x), scrollTop = 0,
                                  scrollHeight = layout (document s) (tog_id x)\<rparr>)) (toggles n)" .
  show "editorContent (document (handleToggleSection i s)) = editorContent (document s)"
    by (simp add: r requestAnimationFrame_def rf d2)
qed

lemma click_click_fire:
  assumes n: "currentNote s = Some n" and idle: "\<not> isRestoring s" and q: "timers s = []"
    and d: "d < 50"
  shows "run [HeaderClick a, Elapse d, HeaderClick b, Elapse 50] s =
    handleToggleSection b
      (s\<lparr>toggleDebounce := Some (Suc (Suc (handlesIssued s))), scrollRestoreTimeout := None,
         handlesIssued := Suc (Suc (handlesIssued s)), clock := clock s + d + 50,
         timers := []\<rparr>)"
proof -
  define s1 where "s1 = toggleSection a s"
  have s1: "s1 = s\<lparr>toggleDebounce := Some (Suc (handlesIssued s)), scrollRestoreTimeout := None,
      handlesIssued := Suc (handlesIssued s),
      timers := [(Suc (handlesIssued s), clock s + 50, ToggleTask a)]\<rparr>"
    unfolding s1_def using n q by (intro toggleSection_clears) simp_all
  define s2 where "s2 = elapse d s1"
  have "s2 = s1\<lparr>clock := clock s1 + d\<rparr>"
    unfolding s2_def using d by (intro elapse_idle) (simp add: s1)
  then have s2: "s2 = s\<lparr>toggleDebounce := Some (Suc (handlesIssued s)),
      scrollRestoreTimeout := None, handlesIssued := Suc (handlesIssued s),
      clock := clock s + d,
      timers := [(Suc (handlesIssued s), clock s + 50, ToggleTask a)]\<rparr>"
    by (simp add: s1)
  define s3 where "s3 = toggleSection b s2"
  have "s3 = s2\<lparr>toggleDebounce := Some (Suc (handlesIssued s2)), scrollRestoreTimeout := None,
      handlesIssued := Suc (handlesIssued s2),
      timers := [(Suc (handlesIssued s2), clock s2 + 50, ToggleTask b)]\<rparr>"
    unfolding s3_def using n by (intro toggleSection_clears) (simp_all add: s2)
  then have s3: "s3 = s\<lparr>toggleDebounce := Some (Suc (Suc (handlesIssued s))),
      scrollRestoreTimeout := None, handlesIssued := Suc (Suc (handlesIssued s)),
      clock := clock s + d,
      timers := [(Suc (Suc (handlesIssued s)), clock s + d + 50, ToggleTask b)]\<rparr>"
    by (simp add: s2)
  have "elapse (Suc 49) s3 = runTask (ToggleTask b) (s3\<lparr>clock := clock s3 + Suc 49, timers := []\<rparr>)"
    by (rule elapse_fire [where h = "Suc (Suc (handlesIssued s))"]) (simp add: s3)
  then have "elapse 50 s3 = handleToggleSection b (s3\<lparr>clock := clock s3 + 50, timers := []\<rparr>)"
    by simp
  then show ?thesis
    by (simp add: s3_def [symmetric] s2_def [symmetric] s1_def [symmetric]) (simp add: s3)
qed

text \<open>
  C7. From an idle editor with nothing pending, two header clicks less than 50 ms apart
  (the first timer has not fired when the second click comes), followed by 50 ms of
  quiet, make exactly one structural mutation. The last click names \<open>t\<close>, the first
  toggle of the note with that id. Then: one snapshot, the note as it was, is pushed and
  one notification sent; the note is the old one with \<open>isOpen\<close> of \<open>t\<close> negated and every
  other toggle, the first click's included, as it was; the toggle list has been rendered
  once, every region made anew at offset 0; one restore pass, for the last click's id,
  waits for the next frame; no timer is left and the guard is held.
\<close>

theorem debounce_last_call_wins:
  assumes "currentNote s = Some n" and "\<not> isRestoring s" and "timers s = []"
    and "d < 50"
    and "toggles n = pre @ t # post" and "tog_id t = b"
    and "list_all (\<lambda>x. tog_id x \<noteq> b) pre"
  shows "(let s' = run [HeaderClick a, Elapse d, HeaderClick b, Elapse 50] s in
      undoStack (history s') = n # undoStack (history s)
      \<and> redoStack (history s') = []
      \<and> notifications (history s') = (True, False) # notifications (history s)
      \<and> currentNote s'
          = Some (n\<lparr>toggles := pre @ t\<lparr>isOpen := \<not> isOpen t\<rparr> # post,
                    updated := clock s + d + 50\<rparr>)
      \<and> renders (document s') = Suc (renders (document s))
      \<and> textareas (document s')
          = map (\<lambda>x. (tog_id x, \<lparr>ta_value = parsedTextareaValue (content x), scrollTop = 0,
                                 scrollHeight = layout (document s) (tog_id x)\<rparr>)) (toggles n)
      \<and> (\<exists>c. frames s' = frames s @ [RestoreTask c] \<and> c_toggleId c = b
               \<and> c_toggleIsOpen c = (\<not> isOpen t))
      \<and> timers s' = [] \<and> isRestoring s')"
proof -
  have t0: "find (\<lambda>x. tog_id x = b) (toggles n) = Some t"
    unfolding assms(5) using assms(7,6) by (rule find_split)
  have fl: "flipFirst b (toggles n) = pre @ t\<lparr>isOpen := \<not> isOpen t\<rparr> # post"
    unfolding assms(5) using assms(7,6) by (rule flipFirst_split)
  define s1 where "s1 = s\<lparr>toggleDebounce := Some (Suc (Suc (handlesIssued s))),
      scrollRestoreTimeout := None, handlesIssued := Suc (Suc (handlesIssued s)),
      clock := clock s + d + 50, timers := []\<rparr>"
  have r: "run [HeaderClick a, Elapse d, HeaderClick b, Elapse 50] s = handleToggleSection b s1"
    unfolding s1_def using assms(1-4) by (rule click_click_fire)
  have cn: "currentNote s1 = Some n" and nr: "\<not> isRestoring s1"
    using assms(1,2) by (simp_all add: s1_def)
  note hf = handleToggleSection_fields [OF cn nr t0]
  note hd = handleToggleSection_document [OF cn nr t0]
  have s1f: "history s1 = history s" "document s1 = document s" "timers s1 = []"
    "frames s1 = frames s" "clock s1 = clock s + d + 50"
    by (simp_all add: s1_def)
  have c: "c_toggleId (closureOf b n t (document s)) = b"
    "c_toggleIsOpen (closureOf b n t (document s)) = (\<not> isOpen t)"
    by (simp_all add: closureOf_def)
  have fr: "\<exists>c. frames (handleToggleSection b s1) = frames s @ [RestoreTask c]
      \<and> c_toggleId c = b \<and> c_toggleIsOpen c = (\<not> isOpen t)"
    using c by (intro exI [of _ "closureOf b n t (document s)"]) (simp add: hf s1f)
  show ?thesis
    unfolding Let_def r using fr by (simp add: hf hd s1f fl)
qed

theorem debounce_last_call_wins_witness:
  "currentNote ui0 = Some note0 \<and> \<not> isRestoring ui0 \<and> timers ui0 = [] \<and> (20 :: nat) < 50
   \<and> toggles note0 = [] @ \<lparr>tog_id = 1, tog_title = [], content = [97], isOpen = False\<rparr>
        # [\<lparr>tog_id = 2, tog_title = [], content = [98, 99], isOpen = True\<rparr>]
   \<and> list_all (\<lambda>x. tog_id x \<noteq> 1) ([] :: toggle list)
   \<and> toggles note0 = [\<lparr>tog_id = 1, tog_title = [], content = [97], isOpen = False\<rparr>]
        @ \<lparr>tog_id = 2, tog_title = [], content = [98, 99], isOpen = True\<rparr> # []
   \<and> list_all (\<lambda>x. tog_id x \<noteq> 2)
        [\<lparr>tog_id = 1, tog_title = [], content = [97], isOpen = False\<rparr>]
   \<and> undoStack (history (run [HeaderClick 2, Elapse 20, HeaderClick 1, Elapse 50] ui0)) = [note0]
   \<and> map_option toggles (currentNote (run [HeaderClick 2, Elapse 20, HeaderClick 1, Elapse 50] ui0))
       = Some [\<lparr>tog_id = 1, tog_title = [], content = [97], isOpen = True\<rparr>,
               \<lparr>tog_id = 2, tog_title = [], content = [98, 99], isOpen = True\<rparr>]
   \<and> renders (document (run [HeaderClick 2, Elapse 20, HeaderClick 1, Elapse 50] ui0)) = 2
   \<and> textareas (document (run [HeaderClick 2, Elapse 20, HeaderClick 1, Elapse 50] ui0))
       = [(1, \<lparr>ta_value = [97], scrollTop = 0, scrollHeight = 200\<rparr>),
          (2, \<lparr>ta_value = [98, 99], scrollTop = 0, scrollHeight = 200\<rparr>)]
   \<and> undoStack (history (run [HeaderClick 1, Elapse 20, HeaderClick 2, Elapse 50] ui0)) = [note0]
   \<and> map_option toggles (currentNote (run [HeaderClick 1, Elapse 20, HeaderClick 2, Elapse 50] ui0))
       = Some [\<lparr>tog_id = 1, tog_title = [], content = [97], isOpen = False\<rparr>,
               \<lparr>tog_id = 2, tog_title = [], content = [98, 99], isOpen = False\<rparr>]
   \<and> renders (document (run [HeaderClick 1, Elapse 20, HeaderClick 2, Elapse 50] ui0)) = 2"
proof -
  have h: "currentNote ui0 = Some note0" "\<not> isRestoring ui0" "timers ui0 = []" "(20 :: nat) < 50"
    by (simp_all add: ui0_def)
  have o: "toggles note0 = [] @ \<lparr>tog_id = 1, tog_title = [], content = [97], isOpen = False\<rparr>
        # [\<lparr>tog_id = 2, tog_title = [], content = [98, 99], isOpen = True\<rparr>]"
    "tog_id \<lparr>tog_id = 1, tog_title = [], content = [97], isOpen = False\<rparr> = 1"
    "list_all (\<lambda>x. tog_id x \<noteq> 1) ([] :: toggle list)"
    by (simp_all add: note0_def)
  have c: "toggles note0 = [\<lparr>tog_id = 1, tog_title = [], content = [97], isOpen = False\<rparr>]
        @ \<lparr>tog_id = 2, tog_title = [], content = [98, 99], isOpen = True\<rparr> # []"
    "tog_id \<lparr>tog_id = 2, tog_title = [], content = [98, 99], isOpen = True\<rparr> = 2"
    "list_all (\<lambda>x. tog_id x \<noteq> 2)
        [\<lparr>tog_id = 1, tog_title = [], content = [97], isOpen = False\<rparr>]"
    by (simp_all add: note0_def)
  have e: "undoStack (history ui0) = []" "renders (document ui0) = 1"
    "layout (document ui0) = (\<lambda>_. 200)"
    "parsedTextareaValue [97] = [97]" "parsedTextareaValue [98, 99] = [98, 99]"
    by (simp_all add: ui0_def parsedTextareaValue_def)
  show ?thesis
    using debounce_last_call_wins [OF h o, of 2] debounce_last_call_wins [OF h c, of 1] h o(3) c(3) e
    by (simp add: Let_def note0_def del: run.simps)
qed

section \<open>The restore passes\<close>

lemma map_of_modifyFirst:
  "map_of (modifyFirst j f xs) i = (if i = j then map_option f (map_of xs i) else map_of xs i)"
  by (induction xs) auto

lemma querySelector_modifyTextarea:
  "querySelector i (modifyTextarea j f d)
     = (if i = j then map_option f (querySelector i d) else querySelector i d)"
  by (simp add: querySelector_def modifyTextarea_def map_of_modifyFirst)

lemma deferredWritesTo_append:
  "deferredWritesTo i (xs @ ys) = deferredWritesTo i xs @ deferredWritesTo i ys"
  by (induction i xs rule: deferredWritesTo.induct) simp_all

lemma restoreRegion_stale:
  assumes "querySelector i (document s) = Some ta"
    and "fst e \<noteq> i \<or> contentHash (snd e) \<noteq> hashContent (ta_value ta)"
  shows "querySelector i (document (restoreRegion c s e)) = Some ta"
    and "deferredWritesTo i (frames (restoreRegion c s e)) = deferredWritesTo i (frames s)"
  using assms
  by (auto simp: restoreRegion_def Let_def requestAnimationFrame_def
      querySelector_modifyTextarea deferredWritesTo_append split: option.splits)

lemma foldl_restoreRegion_stale:
  assumes "querySelector i (document s) = Some ta"
    and "list_all (\<lambda>e. fst e \<noteq> i \<or> contentHash (snd e) \<noteq> hashContent (ta_value ta)) es"
  shows "querySelector i (document (foldl (restoreRegion c) s es)) = Some ta
       \<and> deferredWritesTo i (frames (foldl (restoreRegion c) s es)) = deferredWritesTo i (frames s)"
  using assms
proof (induction es arbitrary: s)
  case Nil
  then show ?case by simp
next
  case (Cons e es)
  have e: "fst e \<noteq> i \<or> contentHash (snd e) \<noteq> hashContent (ta_value ta)"
    and es: "list_all (\<lambda>e. fst e \<noteq> i \<or> contentHash (snd e) \<noteq> hashContent (ta_value ta)) es"
    using Cons.prems(2) by simp_all
  note step = restoreRegion_stale [OF Cons.prems(1) e, of c]
  show ?case
    using Cons.IH [OF step(1) es] step(2) by simp
qed

lemma finalCheckRegion_stale:
  assumes "querySelector i (document s) = Some ta"
    and "fst e \<noteq> i \<or> contentHash (snd e) \<noteq> hashContent (ta_value ta)"
  shows "querySelector i (document (finalCheckRegion c s e)) = Some ta"
    and "frames (finalCheckRegion c s e) = frames s"
  using assms
  by (auto simp: finalCheckRegion_def Let_def querySelector_modifyTextarea split: option.splits)

lemma foldl_finalCheckRegion_stale:
  assumes "querySelector i (document s) = Some ta"
    and "list_all (\<lambda>e. fst e \<noteq> i \<or> contentHash (snd e) \<noteq> hashContent (ta_value ta)) es"
  shows "querySelector i (document (foldl (finalCheckRegion c) s es)) = Some ta
       \<and> frames (foldl (finalCheckRegion c) s es) = frames s"
  using assms
proof (induction es arbitrary: s)
  case Nil
  then show ?case by simp
next
  case (Cons e es)
  have e: "fst e \<noteq> i \<or> contentHash (snd e) \<noteq> hashContent (ta_value ta)"
    and es: "list_all (\<lambda>e. fst e \<noteq> i \<or> contentHash (snd e) \<noteq> hashContent (ta_value ta)) es"
    using Cons.prems(2) by simp_all
  note step = finalCheckRegion_stale [OF Cons.prems(1) e, of c]
  show ?case
    using Cons.IH [OF step(1) es] step(2) by simp
qed

text \<open>
  When a restore pass runs, a rendered region whose live text hashes to something other
  than the captured hash keeps its \<open>scrollTop\<close> (and everything else): the first pass
  neither writes to it nor queues a deferred write for it, the second pass does not
  write to it, whatever an earlier pass did.
\<close>

lemma stale_region_untouched:
  assumes "staleRegion i c s"
  shows "querySelector i (document (restorePass1 c s)) = querySelector i (document s)
       \<and> deferredWritesTo i (frames (restorePass1 c s)) = deferredWritesTo i (frames s)
       \<and> querySelector i (document (finalScrollCheck c s)) = querySelector i (document s)
       \<and> frames (finalScrollCheck c s) = frames s"
proof -
  obtain ta where ta: "querySelector i (document s) = Some ta"
    and es: "list_all (\<lambda>e. fst e \<noteq> i \<or> contentHash (snd e) \<noteq> hashContent (ta_value ta))
               (c_scrollPositions c)"
    and tg: "\<And>state. c_toggleScrollState c = Some state \<Longrightarrow>
               c_toggleId c \<noteq> i \<or> contentHash state \<noteq> hashContent (ta_value ta)"
    using assms by (auto simp: staleRegion_def split: option.splits)
  define s1 where "s1 = (if c_editorPresent c
                then s\<lparr>document := (document s)\<lparr>editorContent :=
                         map_option (\<lambda>_. c_editorScrollTop c) (editorContent (document s))\<rparr>\<rparr>
                else s)"
  have q1: "querySelector i (document s1) = Some ta" and f1: "frames s1 = frames s"
    using ta by (simp_all add: s1_def querySelector_def)
  note p1 = foldl_restoreRegion_stale [OF q1 es, of c]
  have a: "querySelector i (document (restorePass1 c s)) = Some ta"
    using p1 by (simp add: restorePass1_def s1_def [symmetric] setTimeout_def Let_def)
  have b: "deferredWritesTo i (frames (restorePass1 c s)) = deferredWritesTo i (frames s)"
    using p1 f1 by (simp add: restorePass1_def s1_def [symmetric] setTimeout_def Let_def)
  define s2 where "s2 = (if c_toggleIsOpen c then
                  (case c_toggleScrollState c of
                     None \<Rightarrow> s
                   | Some toggleScrollState \<Rightarrow>
                       (case querySelector (c_toggleId c) (document s) of
                          None \<Rightarrow> s
                        | Some ta \<Rightarrow>
                            if hashContent (ta_value ta) = contentHash toggleScrollState
                            then s\<lparr>document := modifyTextarea (c_toggleId c)
                                    (\<lambda>ta. ta\<lparr>scrollTop := cap_scrollTop toggleScrollState\<rparr>)
                                    (document s)\<rparr>
                            else s))
                else s)"
  have q2: "querySelector i (document s2) = Some ta" and f2: "frames s2 = frames s"
    using ta tg
    by (auto simp: s2_def querySelector_modifyTextarea split: option.splits)
  note p2 = foldl_finalCheckRegion_stale [OF q2 es, of c]
  have c: "querySelector i (document (finalScrollCheck c s)) = Some ta"
    using p2 by (simp add: finalScrollCheck_def s2_def [symmetric] Let_def)
  have d: "frames (finalScrollCheck c s) = frames s"
    using p2 f2 by (simp add: finalScrollCheck_def s2_def [symmetric] Let_def)
  show ?thesis
    using a b c d ta by simp
qed

section \<open>Overlapping toggle requests\<close>

lemma restoreRegion_fields:
  "history (restoreRegion c s e) = history s"
  "currentNote (restoreRegion c s e) = currentNote s"
  "isRestoring (restoreRegion c s e) = isRestoring s"
  "timers (restoreRegion c s e) = timers s"
  "clock (restoreRegion c s e) = clock s"
  "handlesIssued (restoreRegion c s e) = handlesIssued s"
  "toggleDebounce (restoreRegion c s e) = toggleDebounce s"
  "scrollRestoreTimeout (restoreRegion c s e) = scrollRestoreTimeout s"
  "autoSaveTimeout (restoreRegion c s e) = autoSaveTimeout s"
  "renders (document (restoreRegion c s e)) = renders (document s)"
  by (simp_all add: restoreRegion_def Let_def requestAnimationFrame_def modifyTextarea_def
      split: option.splits)

lemma restoreRegion_frames:
  "\<exists>new. frames (restoreRegion c s e) = frames s @ new \<and> list_all isRescaleTask new"
  by (simp add: restoreRegion_def Let_def requestAnimationFrame_def split: option.splits)

lemma foldl_restoreRegion_fields:
  "history (foldl (restoreRegion c) s es) = history s"
  "currentNote (foldl (restoreRegion c) s es) = currentNote s"
  "isRestoring (foldl (restoreRegion c) s es) = isRestoring s"
  "timers (foldl (restoreRegion c) s es) = timers s"
  "clock (foldl (restoreRegion c) s es) = clock s"
  "handlesIssued (foldl (restoreRegion c) s es) = handlesIssued s"
  "toggleDebounce (foldl (restoreRegion c) s es) = toggleDebounce s"
  "scrollRestoreTimeout (foldl (restoreRegion c) s es) = scrollRestoreTimeout s"
  "autoSaveTimeout (foldl (restoreRegion c) s es) = autoSaveTimeout s"
  "renders (document (foldl (restoreRegion c) s es)) = renders (document s)"
  by (induction es arbitrary: s; simp add: restoreRegion_fields)+

lemma foldl_restoreRegion_frames:
  "\<exists>new. frames (foldl (restoreRegion c) s es) = frames s @ new \<and> list_all isRescaleTask new"
proof (induction es arbitrary: s)
  case Nil
  show ?case by simp
next
  case (Cons e es)
  obtain new1 where n1: "frames (restoreRegion c s e) = frames s @ new1" "list_all isRescaleTask new1"
    using restoreRegion_frames [of c s e] by auto
  obtain new2 where n2: "frames (foldl (restoreRegion c) (restoreRegion c s e) es)
      = frames (restoreRegion c s e) @ new2" "list_all isRescaleTask new2"
    using Cons.IH [of "restoreRegion c s e"] by auto
  show ?case
    using n1 n2 by (intro exI [of _ "new1 @ new2"]) simp
qed

lemma restorePass1_fields:
  "history (restorePass1 c s) = history s"
  "currentNote (restorePass1 c s) = currentNote s"
  "isRestoring (restorePass1 c s) = isRestoring s"
  "timers (restorePass1 c s)
     = timers s @ [(Suc (handlesIssued s), clock s + 100, FinalCheckTask c)]"
  "clock (restorePass1 c s) = clock s"
  "handlesIssued (restorePass1 c s) = Suc (handlesIssued s)"
  "toggleDebounce (restorePass1 c s) = toggleDebounce s"
  "scrollRestoreTimeout (restorePass1 c s) = Some (Suc (handlesIssued s))"
  "autoSaveTimeout (restorePass1 c s) = autoSaveTimeout s"
  "renders (document (restorePass1 c s)) = renders (document s)"
  by (simp_all add: restorePass1_def Let_def setTimeout_def foldl_restoreRegion_fields)

lemma restorePass1_frames:
  "\<exists>new. frames (restorePass1 c s) = frames s @ new \<and> list_all isRescaleTask new"
proof -
  define s1 where "s1 = (if c_editorPresent c
                then s\<lparr>document := (document s)\<lparr>editorContent :=
                         map_option (\<lambda>_. c_editorScrollTop c) (editorContent (document s))\<rparr>\<rparr>
                else s)"
  have f1: "frames s1 = frames s" by (simp add: s1_def)
  have "frames (restorePass1 c s) = frames (foldl (restoreRegion c) s1 (c_scrollPositions c))"
    by (simp add: restorePass1_def Let_def setTimeout_def s1_def)
  then show ?thesis
    using foldl_restoreRegion_frames [of c s1 "c_scrollPositions c"] f1 by simp
qed

lemma handleToggleSection_dropped: "isRestoring s \<Longrightarrow> handleToggleSection i s = s"
  by (simp add: handleToggleSection_def)



lemma click_fire:
  assumes "currentNote s \<noteq> None"
    and "\<forall>t \<in> set (timers s).
           Some (fst t) = toggleDebounce s \<or> Some (fst t) = scrollRestoreTimeout s"
  shows "run [HeaderClick a, Elapse 50] s =
    handleToggleSection a
      (s\<lparr>toggleDebounce := Some (Suc (handlesIssued s)), scrollRestoreTimeout := None,
         handlesIssued := Suc (handlesIssued s), clock := clock s + 50, timers := []\<rparr>)"
proof -
  define s1 where "s1 = toggleSection a s"
  have s1: "s1 = s\<lparr>toggleDebounce := Some (Suc (handlesIssued s)), scrollRestoreTimeout := None,
      handlesIssued := Suc (handlesIssued s),
      timers := [(Suc (handlesIssued s), clock s + 50, ToggleTask a)]\<rparr>"
    unfolding s1_def using assms by (rule toggleSection_clears)
  have "elapse (Suc 49) s1 = runTask (ToggleTask a) (s1\<lparr>clock := clock s1 + Suc 49, timers := []\<rparr>)"
    by (rule elapse_fire [where h = "Suc (handlesIssued s)"]) (simp add: s1)
  then have "elapse 50 s1 = handleToggleSection a (s1\<lparr>clock := clock s1 + 50, timers := []\<rparr>)"
    by simp
  then show ?thesis
    by (simp add: s1_def [symmetric]) (simp add: s1)
qed

lemma click_dropped:
  assumes "isRestoring s" and "currentNote s \<noteq> None"
    and "\<forall>t \<in> set (timers s).
           Some (fst t) = toggleDebounce s \<or> Some (fst t) = scrollRestoreTimeout s"
  shows "run [HeaderClick b, Elapse 50] s =
      s\<lparr>toggleDebounce := Some (Suc (handlesIssued s)), scrollRestoreTimeout := None,
         handlesIssued := Suc (handlesIssued s), clock := clock s + 50, timers := []\<rparr>"
  unfolding click_fire [OF assms(2,3)]
  using assms(1) by (intro handleToggleSection_dropped) simp


lemma run_append: "run (es @ fs) s = run fs (run es s)"
  by (induction es arbitrary: s) simp_all

lemma first_request:
  assumes "currentNote s = Some n" and "\<not> isRestoring s" and "timers s = []"
    and "find (\<lambda>t. tog_id t = a) (toggles n) = Some t0"
  shows "undoStack (history (run [HeaderClick a, Elapse 50] s)) = n # undoStack (history s)"
    and "currentNote (run [HeaderClick a, Elapse 50] s)
           = Some (n\<lparr>toggles := flipFirst a (toggles n), updated := clock s + 50\<rparr>)"
    and "isRestoring (run [HeaderClick a, Elapse 50] s)"
    and "timers (run [HeaderClick a, Elapse 50] s) = []"
    and "frames (run [HeaderClick a, Elapse 50] s)
           = frames s @ [RestoreTask (closureOf a n t0 (document s))]"
    and "clock (run [HeaderClick a, Elapse 50] s) = clock s + 50"
    and "handlesIssued (run [HeaderClick a, Elapse 50] s) = Suc (handlesIssued s)"
    and "toggleDebounce (run [HeaderClick a, Elapse 50] s) = Some (Suc (handlesIssued s))"
    and "scrollRestoreTimeout (run [HeaderClick a, Elapse 50] s) = None"
    and "renders (document (run [HeaderClick a, Elapse 50] s)) = Suc (renders (document s))"
proof -
  define s' where "s' = s\<lparr>toggleDebounce := Some (Suc (handlesIssued s)),
      scrollRestoreTimeout := None, handlesIssued := Suc (handlesIssued s),
      clock := clock s + 50, timers := []\<rparr>"
  have r: "run [HeaderClick a, Elapse 50] s = handleToggleSection a s'"
    unfolding s'_def using assms(1,3) by (intro click_fire) simp_all
  have cn: "currentNote s' = Some n" and nr: "\<not> isRestoring s'"
    using assms(1,2) by (simp_all add: s'_def)
  note hf = handleToggleSection_fields [OF cn nr assms(4)]
  have s'f: "history s' = history s" "document s' = document s" "timers s' = []"
    "frames s' = frames s" "clock s' = clock s + 50" "handlesIssued s' = Suc (handlesIssued s)"
    "toggleDebounce s' = Some (Suc (handlesIssued s))" "scrollRestoreTimeout s' = None"
    by (simp_all add: s'_def)
  show "undoStack (history (run [HeaderClick a, Elapse 50] s)) = n # undoStack (history s)"
    unfolding r by (simp add: hf s'f)
  show "currentNote (run [HeaderClick a, Elapse 50] s)
           = Some (n\<lparr>toggles := flipFirst a (toggles n), updated := clock s + 50\<rparr>)"
    unfolding r by (simp add: hf s'f)
  show "isRestoring (run [HeaderClick a, Elapse 50] s)"
    unfolding r by (simp add: hf s'f)
  show "timers (run [HeaderClick a, Elapse 50] s) = []"
    unfolding r by (simp add: hf s'f)
  show "frames (run [HeaderClick a, Elapse 50] s)
           = frames s @ [RestoreTask (closureOf a n t0 (document s))]"
    unfolding r by (simp add: hf s'f)
  show "clock (run [HeaderClick a, Elapse 50] s) = clock s + 50"
    unfolding r by (simp add: hf s'f)
  show "handlesIssued (run [HeaderClick a, Elapse 50] s) = Suc (handlesIssued s)"
    unfolding r by (simp add: hf s'f)
  show "toggleDebounce (run [HeaderClick a, Elapse 50] s) = Some (Suc (handlesIssued s))"
    unfolding r by (simp add: hf s'f)
  show "scrollRestoreTimeout (run [HeaderClick a, Elapse 50] s) = None"
    unfolding r by (simp add: hf s'f)
  show "renders (document (run [HeaderClick a, Elapse 50] s)) = Suc (renders (document s))"
    unfolding r by (simp add: hf s'f)
qed

lemma second_request_before_frame:
  assumes "currentNote s = Some n" and "\<not> isRestoring s" and "timers s = []"
    and "find (\<lambda>t. tog_id t = a) (toggles n) = Some t0"
  shows "run [HeaderClick a, Elapse 50, HeaderClick b, Elapse 50] s =
      (run [HeaderClick a, Elapse 50] s)
        \<lparr>toggleDebounce := Some (Suc (Suc (handlesIssued s))), scrollRestoreTimeout := None,
         handlesIssued := Suc (Suc (handlesIssued s)), clock := clock s + 100, timers := []\<rparr>"
proof -
  define sA where "sA = run [HeaderClick a, Elapse 50] s"
  note f = first_request [OF assms, folded sA_def]
  have "run ([HeaderClick a, Elapse 50] @ [HeaderClick b, Elapse 50]) s
      = run [HeaderClick b, Elapse 50] sA"
    unfolding sA_def by (rule run_append)
  also have "\<dots> = sA\<lparr>toggleDebounce := Some (Suc (handlesIssued sA)),
       scrollRestoreTimeout := None, handlesIssued := Suc (handlesIssued sA),
       clock := clock sA + 50, timers := []\<rparr>"
    by (rule click_dropped) (simp_all add: f)
  also have "\<dots> = sA\<lparr>toggleDebounce := Some (Suc (Suc (handlesIssued s))),
       scrollRestoreTimeout := None, handlesIssued := Suc (Suc (handlesIssued s)),
       clock := clock s + 100, timers := []\<rparr>"
    by (simp add: f)
  finally show ?thesis
    unfolding sA_def by simp
qed

lemma first_frame:
  assumes "currentNote s = Some n" and "\<not> isRestoring s" and "timers s = []"
    and "frames s = []" and "find (\<lambda>t. tog_id t = a) (toggles n) = Some t0"
  shows "run [HeaderClick a, Elapse 50, Frame] s
      = restorePass1 (closureOf a n t0 (document s))
          ((run [HeaderClick a, Elapse 50] s)\<lparr>frames := []\<rparr>)"
proof -
  define sA where "sA = run [HeaderClick a, Elapse 50] s"
  note f = first_request [OF assms(1,2,3,5), folded sA_def]
  have "run ([HeaderClick a, Elapse 50] @ [Frame]) s = run [Frame] sA"
    unfolding sA_def by (rule run_append)
  also have "\<dots> = restorePass1 (closureOf a n t0 (document s)) (sA\<lparr>frames := []\<rparr>)"
    using assms(4) by (simp add: animationFrame_def f(5))
  finally show ?thesis
    unfolding sA_def by simp
qed

lemma second_request_after_frame:
  assumes "currentNote s = Some n" and "\<not> isRestoring s" and "timers s = []"
    and "frames s = []" and "find (\<lambda>t. tog_id t = a) (toggles n) = Some t0"
  shows "run [HeaderClick a, Elapse 50, Frame, HeaderClick b, Elapse 50] s =
      (run [HeaderClick a, Elapse 50, Frame] s)
        \<lparr>toggleDebounce := Some (Suc (Suc (Suc (handlesIssued s)))), scrollRestoreTimeout := None,
         handlesIssued := Suc (Suc (Suc (handlesIssued s))), clock := clock s + 100,
         timers := []\<rparr>"
proof -
  define sA where "sA = run [HeaderClick a, Elapse 50] s"
  note f = first_request [OF assms(1,2,3,5), folded sA_def]
  define sB where "sB = run [HeaderClick a, Elapse 50, Frame] s"
  have sB: "sB = restorePass1 (closureOf a n t0 (document s)) (sA\<lparr>frames := []\<rparr>)"
    unfolding sB_def sA_def by (rule first_frame [OF assms])
  have sBf: "isRestoring sB" "currentNote sB \<noteq> None"
    "timers sB = [(Suc (Suc (handlesIssued s)), clock s + 150,
        FinalCheckTask (closureOf a n t0 (document s)))]"
    "scrollRestoreTimeout sB = Some (Suc (Suc (handlesIssued s)))"
    "handlesIssued sB = Suc (Suc (handlesIssued s))" "clock sB = clock s + 50"
    by (simp_all add: sB restorePass1_fields f)
  have "run ([HeaderClick a, Elapse 50, Frame] @ [HeaderClick b, Elapse 50]) s
      = run [HeaderClick b, Elapse 50] sB"
    unfolding sB_def by (rule run_append)
  also have "\<dots> = sB\<lparr>toggleDebounce := Some (Suc (handlesIssued sB)),
       scrollRestoreTimeout := None, handlesIssued := Suc (handlesIssued sB),
       clock := clock sB + 50, timers := []\<rparr>"
    by (rule click_dropped) (simp_all add: sBf)
  also have "\<dots> = sB\<lparr>toggleDebounce := Some (Suc (Suc (Suc (handlesIssued s)))),
       scrollRestoreTimeout := None, handlesIssued := Suc (Suc (Suc (handlesIssued s))),
       clock := clock s + 100, timers := []\<rparr>"
    by (simp add: sBf)
  finally show ?thesis
    unfolding sB_def by simp
qed


lemma map_isOpen_setContentFirst: "map isOpen (setContentFirst i v ts) = map isOpen ts"
  by (induction ts) simp_all

lemma handleNoteChange_stuck:
  assumes "guardStuck s"
  shows "guardStuck (handleNoteChange e s)" and "openFlags (handleNoteChange e s) = openFlags s"
  using assms
  by (auto simp: guardStuck_def openFlags_def handleNoteChange_def clearTimeout_def
      setTimeout_def Let_def list_all_iff split: option.splits)

lemma updateToggleContent_stuck:
  assumes "guardStuck s"
  shows "guardStuck (updateToggleContent i v s)"
    and "openFlags (updateToggleContent i v s) = openFlags s"
proof -
  show "guardStuck (updateToggleContent i v s)"
    using assms
    by (auto simp: guardStuck_def updateToggleContent_def Let_def
        split: option.splits prod.splits)
  show "openFlags (updateToggleContent i v s) = openFlags s"
  proof (cases "currentNote s")
    case None
    then show ?thesis by (simp add: updateToggleContent_def)
  next
    case (Some cur)
    show ?thesis
    proof (cases "find (\<lambda>t. tog_id t = i) (toggles cur)")
      case None
      then show ?thesis using Some by (simp add: updateToggleContent_def)
    next
      case (Some t0)
      obtain cur2 nm1 ls1 where u: "updateNote (clock s)
          (cur\<lparr>toggles := setContentFirst i v (toggles cur)\<rparr>) (noteManager s) (storage s)
          = (cur2, nm1, ls1)"
        by (cases "updateNote (clock s) (cur\<lparr>toggles := setContentFirst i v (toggles cur)\<rparr>)
              (noteManager s) (storage s)") auto
      have "cur2 = cur\<lparr>toggles := setContentFirst i v (toggles cur), updated := clock s\<rparr>"
        using updateNote_fst [of "clock s" "cur\<lparr>toggles := setContentFirst i v (toggles cur)\<rparr>"
            "noteManager s" "storage s"] u by simp
      then show ?thesis
        using \<open>currentNote s = Some cur\<close> Some u
        by (simp add: updateToggleContent_def openFlags_def Let_def map_isOpen_setContentFirst)
    qed
  qed
qed

lemma toggleSection_stuck:
  assumes "guardStuck s"
  shows "guardStuck (toggleSection i s)" and "openFlags (toggleSection i s) = openFlags s"
  using assms
  by (auto simp: guardStuck_def openFlags_def toggleSection_def clearTimeout_def
      setTimeout_def Let_def list_all_iff split: option.splits)

lemma autoSaveCommit_stuck:
  assumes "guardStuck s"
  shows "guardStuck (autoSaveCommit p s)" and "openFlags (autoSaveCommit p s) = openFlags s"
proof -
  show "guardStuck (autoSaveCommit p s)"
    using assms
    by (auto simp: guardStuck_def autoSaveCommit_def Let_def split: option.splits prod.splits)
  show "openFlags (autoSaveCommit p s) = openFlags s"
  proof (cases "currentNote s")
    case None
    then show ?thesis by (simp add: autoSaveCommit_def openFlags_def)
  next
    case (Some cur)
    obtain cur2 nm1 ls1 where u: "updateNote (clock s) cur (noteManager s) (storage s)
          = (cur2, nm1, ls1)"
      by (cases "updateNote (clock s) cur (noteManager s) (storage s)") auto
    have "cur2 = cur\<lparr>updated := clock s\<rparr>"
      using updateNote_fst [of "clock s" cur "noteManager s" "storage s"] u by simp
    then show ?thesis
      using Some u by (simp add: autoSaveCommit_def openFlags_def Let_def)
  qed
qed


lemma clearTimeout_stuck:
  assumes "guardStuck s"
  shows "guardStuck (clearTimeout h s)" and "openFlags (clearTimeout h s) = openFlags s"
  using assms by (auto simp: guardStuck_def openFlags_def clearTimeout_def list_all_iff)

lemma runTask_stuck:
  assumes "guardStuck s" and "\<not> isFinalCheckTask callback"
  shows "guardStuck (runTask callback s)" and "openFlags (runTask callback s) = openFlags s"
proof -
  have r: "isRestoring s" using assms(1) by (simp add: guardStuck_def)
  show "guardStuck (runTask callback s)"
    using assms r
    by (cases callback) (simp_all add: handleToggleSection_dropped autoSaveCommit_stuck)
  show "openFlags (runTask callback s) = openFlags s"
    using assms r
    by (cases callback) (simp_all add: handleToggleSection_dropped autoSaveCommit_stuck)
qed

lemma fireTimer_stuck:
  assumes "guardStuck s"
  shows "guardStuck (fireTimer h s) \<and> openFlags (fireTimer h s) = openFlags s"
proof (cases "map_of (timers s) h")
  case None
  then show ?thesis using assms by (simp add: fireTimer_def)
next
  case (Some dc)
  obtain due callback where dc: "dc = (due, callback)" by (cases dc)
  have "(h, due, callback) \<in> set (timers s)"
    using Some dc by (auto dest: map_of_SomeD)
  then have nf: "\<not> isFinalCheckTask callback"
    using assms by (auto simp: guardStuck_def list_all_iff)
  show ?thesis
    using Some dc runTask_stuck [OF clearTimeout_stuck(1) [OF assms, of h] nf]
      clearTimeout_stuck(2) [OF assms, of h]
    by (simp add: fireTimer_def)
qed

lemma foldl_fireTimer_stuck:
  "guardStuck s \<Longrightarrow>
     guardStuck (foldl (\<lambda>s' h. fireTimer h s') s hs)
     \<and> openFlags (foldl (\<lambda>s' h. fireTimer h s') s hs) = openFlags s"
proof (induction hs arbitrary: s)
  case Nil
  then show ?case by simp
next
  case (Cons h hs)
  note f = fireTimer_stuck [OF Cons.prems, of h]
  show ?case
    using Cons.IH [of "fireTimer h s"] f by simp
qed

lemma tick_stuck:
  assumes "guardStuck s"
  shows "guardStuck (tick s) \<and> openFlags (tick s) = openFlags s"
proof -
  have g: "guardStuck (s\<lparr>clock := clock s + 1\<rparr>)"
    and o: "openFlags (s\<lparr>clock := clock s + 1\<rparr>) = openFlags s"
    using assms by (simp_all add: guardStuck_def openFlags_def)
  show ?thesis
    using foldl_fireTimer_stuck [OF g] o by (simp add: tick_def Let_def)
qed

lemma elapse_stuck:
  "guardStuck s \<Longrightarrow> guardStuck (elapse d s) \<and> openFlags (elapse d s) = openFlags s"
proof (induction d arbitrary: s)
  case 0
  then show ?case by simp
next
  case (Suc d)
  note t = tick_stuck [OF Suc.prems]
  show ?case
    using Suc.IH [of "tick s"] t by simp
qed

lemma runFrameTask_stuck:
  assumes "guardStuck s" and "isRescaleTask callback"
  shows "guardStuck (runFrameTask callback s) \<and> openFlags (runFrameTask callback s) = openFlags s"
  using assms
  by (cases callback) (simp_all add: rescaleTarget_def guardStuck_def openFlags_def)

lemma foldl_runFrameTask_stuck:
  "guardStuck s \<Longrightarrow> list_all isRescaleTask fs \<Longrightarrow>
     guardStuck (foldl (\<lambda>s' callback. runFrameTask callback s') s fs)
     \<and> openFlags (foldl (\<lambda>s' callback. runFrameTask callback s') s fs) = openFlags s"
proof (induction fs arbitrary: s)
  case Nil
  then show ?case by simp
next
  case (Cons f fs)
  have f: "isRescaleTask f" and fs: "list_all isRescaleTask fs"
    using Cons.prems(2) by simp_all
  note r = runFrameTask_stuck [OF Cons.prems(1) f]
  show ?case
    using Cons.IH [of "runFrameTask f s"] r fs by simp
qed

lemma animationFrame_stuck:
  assumes "guardStuck s"
  shows "guardStuck (animationFrame s) \<and> openFlags (animationFrame s) = openFlags s"
proof -
  have g: "guardStuck (s\<lparr>frames := []\<rparr>)" and o: "openFlags (s\<lparr>frames := []\<rparr>) = openFlags s"
    and fs: "list_all isRescaleTask (frames s)"
    using assms by (simp_all add: guardStuck_def openFlags_def)
  show ?thesis
    using foldl_runFrameTask_stuck [OF g fs] o by (simp add: animationFrame_def)
qed

lemma step_stuck:
  assumes "guardStuck s"
  shows "guardStuck (step e s) \<and> openFlags (step e s) = openFlags s"
proof (cases e)
  case (TitleInput v)
  then show ?thesis using handleNoteChange_stuck [OF assms] by simp
next
  case (TextareaInput i v)
  have "guardStuck (s\<lparr>document := modifyTextarea i (\<lambda>ta. ta\<lparr>ta_value := v\<rparr>) (document s)\<rparr>)"
    using assms by (simp add: guardStuck_def)
  from updateToggleContent_stuck [OF this] TextareaInput show ?thesis
    by (simp add: openFlags_def)
next
  case (HeaderClick i)
  then show ?thesis using toggleSection_stuck [OF assms] by simp
next
  case (Scroll i y)
  then show ?thesis using assms by (simp add: guardStuck_def openFlags_def)
next
  case (Reflow i h)
  then show ?thesis using assms by (simp add: guardStuck_def openFlags_def)
next
  case (Elapse d)
  then show ?thesis using elapse_stuck [OF assms] by simp
next
  case Frame
  then show ?thesis using animationFrame_stuck [OF assms] by simp
qed

lemma run_stuck:
  "guardStuck s \<Longrightarrow> guardStuck (run es s) \<and> openFlags (run es s) = openFlags s"
proof (induction es arbitrary: s)
  case Nil
  then show ?case by simp
next
  case (Cons e es)
  note st = step_stuck [OF Cons.prems, of e]
  show ?case
    using Cons.IH [of "step e s"] st by simp
qed


lemma elapse_fire_single:
  assumes "length (timers s) = 1" and "fst (snd (hd (timers s))) = clock s + d" and "0 < d"
  shows "elapse d s = runTask (snd (snd (hd (timers s)))) (s\<lparr>clock := clock s + d, timers := []\<rparr>)"
proof -
  obtain h due callback where t: "timers s = [(h, due, callback)]"
    using assms(1) by (cases "timers s") auto
  obtain d' where d': "d = Suc d'"
    using assms(3) by (cases d) auto
  have "timers s = [(h, clock s + Suc d', callback)]"
    using t assms(2) d' by simp
  from elapse_fire [OF this] show ?thesis
    by (simp add: t d')
qed

lemma elapse_wait:
  assumes "list_all (\<lambda>t. clock s + d < fst (snd t)) (timers s)"
  shows "elapse d s = s\<lparr>clock := clock s + d\<rparr>"
  using assms by (intro elapse_idle) (simp add: list_all_iff)

lemma rescale_examples:
  "rescale 100 200 400 = 200" "rescale 100 200 201 = 100" "rescale 40 0 200 = 0"
  by (simp_all add: rescale_def mathRound_def timesDouble_def toDouble_def scaledBy_def
      roundHalfEven_def bitLength.simps Let_def)

lemmas eval_defs = ui0_def note0_def toggleSection_def clearTimeout_def setTimeout_def
  handleToggleSection_def handleToggleSectionTry_def captureScrollPositions_def
  querySelector_def hashContent_def hashStep_def toInt32_def push_def notify_def
  canUndo_def canRedo_def updateNote_def saveNotes_def save_def getAppNamespace_def
  renderEditor_def saveEditorState_def requestAnimationFrame_def animationFrame_def
  restorePass1_def restoreRegion_def modifyTextarea_def rescaleScrollTop_def
  parsedTextareaValue_def
  finalScrollCheck_def finalCheckRegion_def rescaleTarget_def resetScrollPositions_def
  handleNoteChange_def autoSaveCommit_def updateToggleContent_def burst_def
  List.map_filter_def Let_def elapse_fire_single elapse_wait

section \<open>Reconciliation runs\<close>

text \<open>
  An instance: in the middle of a reconciliation of toggle 1 the second region has been
  retyped; neither pass touches it.
\<close>

lemma stale_region_untouched_example:
  "staleRegion 2 closure0 ui1
   \<and> querySelector 2 (document (restorePass1 closure0 ui1))
       = Some \<lparr>ta_value = [98, 99, 100], scrollTop = 5, scrollHeight = 200\<rparr>
   \<and> deferredWritesTo 2 (frames (restorePass1 closure0 ui1)) = []
   \<and> querySelector 2 (document (finalScrollCheck closure0 ui1))
       = Some \<lparr>ta_value = [98, 99, 100], scrollTop = 5, scrollHeight = 200\<rparr>"
proof -
  have st: "staleRegion 2 closure0 ui1"
    by (simp add: staleRegion_def closure0_def ui1_def ui0_def querySelector_def
        hashContent_def hashStep_def toInt32_def)
  have q: "querySelector 2 (document ui1)
       = Some \<lparr>ta_value = [98, 99, 100], scrollTop = 5, scrollHeight = 200\<rparr>"
    and f: "frames ui1 = []"
    by (simp_all add: ui1_def ui0_def querySelector_def)
  show ?thesis
    using stale_region_untouched [OF st] st q f by simp
qed

text \<open>
  The same on a run: the first pass restores the second region to 100; the user then
  retypes it and scrolls it to 5; the second pass leaves it at 5 and releases the guard.
\<close>

lemma stale_after_first_pass:
  "map_option scrollTop (querySelector 2 (document
      (run [HeaderClick 1, Elapse 50, Frame] ui0))) = Some 100
   \<and> map_option scrollTop (querySelector 2 (document
      (run [HeaderClick 1, Elapse 50, Frame, TextareaInput 2 [98, 99, 100], Scroll 2 5,
            Elapse 100] ui0))) = Some 5
   \<and> \<not> isRestoring (run [HeaderClick 1, Elapse 50, Frame, TextareaInput 2 [98, 99, 100],
            Scroll 2 5, Elapse 100] ui0)"
  by (simp add: eval_defs)

text \<open>
  C6. The deferred write of the first pass is not guarded. Region 1 is closed and
  scrolled to 40; its header is clicked; the first pass finds its hash unchanged and
  queues the write for the next frame. Before that frame the user types in the region
  (its hash is now 120, the captured one 97) and scrolls it to 5. The frame writes the
  captured 40 to it all the same. Started from offset 0, the same run takes the region
  from 5 back to 0.
\<close>

theorem deferred_write_ignores_hash:
  "querySelector 1 (document (run [Scroll 1 40] ui0))
     = Some \<lparr>ta_value = [97], scrollTop = 40, scrollHeight = 200\<rparr>
   \<and> frames (run [Scroll 1 40, HeaderClick 1, Elapse 50, Frame] ui0)
     = [RescaleTask 2 1 \<lparr>cap_scrollTop = 40, cap_scrollHeight = 200, cap_content = [97],
                          contentHash = 97\<rparr>]
   \<and> querySelector 1 (document
        (run [Scroll 1 40, HeaderClick 1, Elapse 50, Frame, TextareaInput 1 [120], Scroll 1 5] ui0))
     = Some \<lparr>ta_value = [120], scrollTop = 5, scrollHeight = 200\<rparr>
   \<and> hashContent [120] = 120
   \<and> querySelector 1 (document
        (run [Scroll 1 40, HeaderClick 1, Elapse 50, Frame, TextareaInput 1 [120], Scroll 1 5,
              Frame] ui0))
     = Some \<lparr>ta_value = [120], scrollTop = 40, scrollHeight = 200\<rparr>
   \<and> querySelector 1 (document
        (run [HeaderClick 1, Elapse 50, Frame, TextareaInput 1 [120], Scroll 1 5] ui0))
     = Some \<lparr>ta_value = [120], scrollTop = 5, scrollHeight = 200\<rparr>
   \<and> querySelector 1 (document
        (run [HeaderClick 1, Elapse 50, Frame, TextareaInput 1 [120], Scroll 1 5, Frame] ui0))
     = Some \<lparr>ta_value = [120], scrollTop = 0, scrollHeight = 200\<rparr>"
  by (simp add: eval_defs)

text \<open>
  C8. A toggle request whose debounce timer fires while the guard is held is dropped:
  \<open>_handleToggleSection\<close> returns the state it was given. From an idle editor, a first
  request that starts a reconciliation and a second request whose timer fires during
  it, with or without the first restore pass in between, leave the history and the note
  as the first request made them: one push, one render, no second restore pass queued.
\<close>

theorem reentrancy_drop:
  assumes "currentNote s = Some n" and "\<not> isRestoring s" and "timers s = []"
    and "frames s = []" and "find (\<lambda>t. tog_id t = a) (toggles n) \<noteq> None"
  shows "(isRestoring t \<longrightarrow> handleToggleSection i t = t)
     \<and> undoStack (history (run [HeaderClick a, Elapse 50] s)) = n # undoStack (history s)
     \<and> history (run [HeaderClick a, Elapse 50, HeaderClick b, Elapse 50] s)
         = history (run [HeaderClick a, Elapse 50] s)
     \<and> currentNote (run [HeaderClick a, Elapse 50, HeaderClick b, Elapse 50] s)
         = currentNote (run [HeaderClick a, Elapse 50] s)
     \<and> document (run [HeaderClick a, Elapse 50, HeaderClick b, Elapse 50] s)
         = document (run [HeaderClick a, Elapse 50] s)
     \<and> frames (run [HeaderClick a, Elapse 50, HeaderClick b, Elapse 50] s)
         = frames (run [HeaderClick a, Elapse 50] s)
     \<and> timers (run [HeaderClick a, Elapse 50, HeaderClick b, Elapse 50] s) = []
     \<and> history (run [HeaderClick a, Elapse 50, Frame, HeaderClick b, Elapse 50] s)
         = history (run [HeaderClick a, Elapse 50] s)
     \<and> currentNote (run [HeaderClick a, Elapse 50, Frame, HeaderClick b, Elapse 50] s)
         = currentNote (run [HeaderClick a, Elapse 50] s)
     \<and> renders (document (run [HeaderClick a, Elapse 50, Frame, HeaderClick b, Elapse 50] s))
         = Suc (renders (document s))
     \<and> list_all isRescaleTask
           (frames (run [HeaderClick a, Elapse 50, Frame, HeaderClick b, Elapse 50] s))
     \<and> timers (run [HeaderClick a, Elapse 50, Frame, HeaderClick b, Elapse 50] s) = []"
proof -
  obtain t0 where t0: "find (\<lambda>t. tog_id t = a) (toggles n) = Some t0"
    using assms(5) by auto
  define sA where "sA = run [HeaderClick a, Elapse 50] s"
  define sB where "sB = run [HeaderClick a, Elapse 50, Frame] s"
  note f = first_request [OF assms(1,2,3) t0, folded sA_def]
  note r1 = second_request_before_frame [OF assms(1,2,3) t0, of b, folded sA_def]
  note r2 = second_request_after_frame [OF assms(1,2,3,4) t0, of b, folded sB_def]
  have sB: "sB = restorePass1 (closureOf a n t0 (document s)) (sA\<lparr>frames := []\<rparr>)"
    unfolding sB_def sA_def by (rule first_frame [OF assms(1,2,3,4) t0])
  obtain new where new: "frames sB = new" "list_all isRescaleTask new"
    using restorePass1_frames [of "closureOf a n t0 (document s)" "sA\<lparr>frames := []\<rparr>"]
    by (auto simp: sB)
  have sBf: "history sB = history sA" "currentNote sB = currentNote sA"
    "renders (document sB) = Suc (renders (document s))"
    by (simp_all add: sB restorePass1_fields f)
  have d: "isRestoring t \<longrightarrow> handleToggleSection i t = t"
    by (simp add: handleToggleSection_dropped)
  show ?thesis
    unfolding r1 r2 sA_def [symmetric]
    using d f(1) sBf new by simp
qed

theorem reentrancy_drop_witness:
  "currentNote ui0 = Some note0 \<and> \<not> isRestoring ui0 \<and> timers ui0 = [] \<and> frames ui0 = []
   \<and> find (\<lambda>t. tog_id t = 1) (toggles note0) \<noteq> None
   \<and> isRestoring (ui0\<lparr>isRestoring := True\<rparr>)
   \<and> handleToggleSection 2 (ui0\<lparr>isRestoring := True\<rparr>) = ui0\<lparr>isRestoring := True\<rparr>
   \<and> undoStack (history (run [HeaderClick 1, Elapse 50, HeaderClick 2, Elapse 50] ui0)) = [note0]
   \<and> undoStack (history (run [HeaderClick 1, Elapse 50, Frame, HeaderClick 2, Elapse 50] ui0))
       = [note0]
   \<and> map_option (\<lambda>n. map isOpen (toggles n))
        (currentNote (run [HeaderClick 1, Elapse 50, Frame, HeaderClick 2, Elapse 50] ui0))
       = Some [True, True]"
proof -
  have h: "currentNote ui0 = Some note0" "\<not> isRestoring ui0" "timers ui0 = []" "frames ui0 = []"
    "find (\<lambda>t. tog_id t = 1) (toggles note0) \<noteq> None"
    by (simp_all add: ui0_def note0_def)
  have e: "currentNote (run [HeaderClick 1, Elapse 50] ui0)
      = Some (note0\<lparr>toggles := flipFirst 1 (toggles note0), updated := 1050\<rparr>)"
    by (simp add: eval_defs)
  have u: "undoStack (history ui0) = []"
    by (simp add: ui0_def)
  show ?thesis
    using reentrancy_drop [OF h, of "ui0\<lparr>isRestoring := True\<rparr>" 2 2] h e u
    by (simp add: note0_def)
qed

text \<open>
  Left alone, a reconciliation runs to its end: after the first pass and the 100 ms of
  the second, the guard is released.
\<close>

lemma reconciliation_completes:
  assumes "currentNote s = Some n" and "\<not> isRestoring s" and "timers s = []"
    and "frames s = []" and "find (\<lambda>t. tog_id t = a) (toggles n) \<noteq> None"
  shows "\<not> isRestoring (run [HeaderClick a, Elapse 50, Frame, Elapse 100] s)"
proof -
  obtain t0 where t0: "find (\<lambda>t. tog_id t = a) (toggles n) = Some t0"
    using assms(5) by auto
  define sA where "sA = run [HeaderClick a, Elapse 50] s"
  define sB where "sB = run [HeaderClick a, Elapse 50, Frame] s"
  note f = first_request [OF assms(1,2,3) t0, folded sA_def]
  have sB: "sB = restorePass1 (closureOf a n t0 (document s)) (sA\<lparr>frames := []\<rparr>)"
    unfolding sB_def sA_def by (rule first_frame [OF assms(1,2,3,4) t0])
  have t: "timers sB = [(Suc (Suc (handlesIssued s)), clock sB + Suc 99,
        FinalCheckTask (closureOf a n t0 (document s)))]"
    by (simp add: sB restorePass1_fields f)
  have "run ([HeaderClick a, Elapse 50, Frame] @ [Elapse 100]) s = run [Elapse 100] sB"
    unfolding sB_def by (rule run_append)
  also have "\<dots> = elapse (Suc 99) sB"
    by simp
  also have "\<dots> = runTask (FinalCheckTask (closureOf a n t0 (document s)))
      (sB\<lparr>clock := clock sB + Suc 99, timers := []\<rparr>)"
    by (rule elapse_fire [OF t])
  finally show ?thesis
    by (simp add: finalScrollCheck_def Let_def)
qed

text \<open>
  C3. The code does not always return to Idle. From an idle editor: a click, its
  reconciliation, the first restore pass, and a second click before the second pass has
  run. \<open>toggleSection\<close> cancels the timer of the second pass, whose \<open>finally\<close> block is
  the only place that releases the guard on this path. Whatever happens afterwards, the
  guard stays held and no toggle is flipped again.
\<close>

theorem guard_never_released:
  assumes "currentNote s = Some n" and "\<not> isRestoring s" and "timers s = []"
    and "frames s = []" and "find (\<lambda>t. tog_id t = a) (toggles n) \<noteq> None"
  shows "isRestoring (run ([HeaderClick a, Elapse 50, Frame, HeaderClick b, Elapse 50] @ es) s)
     \<and> openFlags (run ([HeaderClick a, Elapse 50, Frame, HeaderClick b, Elapse 50] @ es) s)
         = Some (map isOpen (flipFirst a (toggles n)))"
proof -
  obtain t0 where t0: "find (\<lambda>t. tog_id t = a) (toggles n) = Some t0"
    using assms(5) by auto
  define sA where "sA = run [HeaderClick a, Elapse 50] s"
  define sB where "sB = run [HeaderClick a, Elapse 50, Frame] s"
  define sD where "sD = run [HeaderClick a, Elapse 50, Frame, HeaderClick b, Elapse 50] s"
  note f = first_request [OF assms(1,2,3) t0, folded sA_def]
  have sB: "sB = restorePass1 (closureOf a n t0 (document s)) (sA\<lparr>frames := []\<rparr>)"
    unfolding sB_def sA_def by (rule first_frame [OF assms(1,2,3,4) t0])
  obtain new where new: "frames sB = new" "list_all isRescaleTask new"
    using restorePass1_frames [of "closureOf a n t0 (document s)" "sA\<lparr>frames := []\<rparr>"]
    by (auto simp: sB)
  have sBf: "isRestoring sB" "currentNote sB = currentNote sA"
    by (simp_all add: sB restorePass1_fields f)
  have sD: "sD = sB\<lparr>toggleDebounce := Some (Suc (Suc (Suc (handlesIssued s)))),
         scrollRestoreTimeout := None,
         handlesIssued := Suc (Suc (Suc (handlesIssued s))), clock := clock s + 100,
         timers := []\<rparr>"
    unfolding sD_def sB_def by (rule second_request_after_frame [OF assms(1,2,3,4) t0])
  have stuck: "guardStuck sD"
    by (simp add: guardStuck_def sD sBf new)
  have flags: "openFlags sD = Some (map isOpen (flipFirst a (toggles n)))"
    by (simp add: openFlags_def sD sBf f)
  have "run ([HeaderClick a, Elapse 50, Frame, HeaderClick b, Elapse 50] @ es) s = run es sD"
    unfolding sD_def by (rule run_append)
  then show ?thesis
    using run_stuck [OF stuck, of es] flags by (simp add: guardStuck_def)
qed

theorem guard_never_released_witness:
  "currentNote ui0 = Some note0 \<and> \<not> isRestoring ui0 \<and> timers ui0 = [] \<and> frames ui0 = []
   \<and> find (\<lambda>t. tog_id t = 1) (toggles note0) \<noteq> None
   \<and> isRestoring (run ([HeaderClick 1, Elapse 50, Frame, HeaderClick 1, Elapse 50]
        @ [Frame, Elapse 1000, HeaderClick 2, Elapse 50, Frame, Elapse 1000]) ui0)
   \<and> openFlags (run ([HeaderClick 1, Elapse 50, Frame, HeaderClick 1, Elapse 50]
        @ [Frame, Elapse 1000, HeaderClick 2, Elapse 50, Frame, Elapse 1000]) ui0)
       = Some [True, True]"
proof -
  have h: "currentNote ui0 = Some note0" "\<not> isRestoring ui0" "timers ui0 = []" "frames ui0 = []"
    "find (\<lambda>t. tog_id t = 1) (toggles note0) \<noteq> None"
    by (simp_all add: ui0_def note0_def)
  have "map isOpen (flipFirst 1 (toggles note0)) = [True, True]"
    by (simp add: note0_def)
  then show ?thesis
    using guard_never_released [OF h, of 1 "[Frame, Elapse 1000, HeaderClick 2, Elapse 50, Frame, Elapse 1000]"] h
    by (simp del: run.simps append.simps)
qed

text \<open>
  C4. An exception in the synchronous part of a reconciliation: the debounced request
  names a toggle the note does not have, \<open>_handleToggleSection\<close> throws
  \<open>Toggle not found\<close> after the capture, and its outer \<open>catch\<close> releases the guard
  without calling \<open>_resetScrollPositions\<close>: the regions and the container keep their
  offsets (100 and 30), where a hard reset would have set them to 0.
\<close>

theorem toggle_not_found_no_reset:
  "find (\<lambda>t. tog_id t = 99) (toggles note0) = None
   \<and> map (\<lambda>e. scrollTop (snd e)) (textareas (document (run [HeaderClick 99, Elapse 50] ui0)))
       = [0, 100]
   \<and> editorContent (document (run [HeaderClick 99, Elapse 50] ui0)) = Some 30
   \<and> \<not> isRestoring (run [HeaderClick 99, Elapse 50] ui0)
   \<and> map (\<lambda>e. scrollTop (snd e))
        (textareas (document (resetScrollPositions (run [HeaderClick 99, Elapse 50] ui0))))
       = [0, 0]
   \<and> editorContent (document (resetScrollPositions (run [HeaderClick 99, Elapse 50] ui0)))
       = Some 0"
  by (simp add: eval_defs)

text \<open>
  C5. The second region is captured at \<open>scrollTop\<close> 100 of \<open>scrollHeight\<close> 200; toggle 1 is
  clicked; after the render the region is laid out 400 high with the same text. The
  first pass sets it to 200 (100 rescaled by 400/200); the second pass, 100 ms later,
  sets it back to the captured 100.
\<close>

theorem final_pass_overwrites_rescale:
  "querySelector 2 (document ui0)
     = Some \<lparr>ta_value = [98, 99], scrollTop = 100, scrollHeight = 200\<rparr>
   \<and> querySelector 2 (document (run [HeaderClick 1, Elapse 50, Reflow 2 400, Frame] ui0))
     = Some \<lparr>ta_value = [98, 99], scrollTop = 200, scrollHeight = 400\<rparr>
   \<and> querySelector 2 (document (run [HeaderClick 1, Elapse 50, Reflow 2 400, Frame, Elapse 100] ui0))
     = Some \<lparr>ta_value = [98, 99], scrollTop = 100, scrollHeight = 400\<rparr>"
  by (simp add: eval_defs rescale_examples)

section \<open>Bursts of title edits\<close>

lemma handleNoteChange_armed:
  assumes "currentNote s = Some cur"
    and "\<forall>t \<in> set (timers s). Some (fst t) = autoSaveTimeout s"
  shows "handleNoteChange (True, v) s =
     s\<lparr>currentNote := Some (cur\<lparr>title := v\<rparr>),
       handlesIssued := Suc (handlesIssued s),
       timers := [(Suc (handlesIssued s), clock s + 500, AutoSaveTask cur)],
       autoSaveTimeout := Some (Suc (handlesIssued s))\<rparr>"
proof (cases "autoSaveTimeout s")
  case None
  have "timers s = []"
    using assms(2) None by (cases "timers s") auto
  then show ?thesis
    using assms(1) None
    by (cases s) (simp add: handleNoteChange_def setTimeout_def)
next
  case (Some h)
  have "filter (\<lambda>t. fst t \<noteq> h) (timers s) = []"
    using assms(2) Some by (auto simp: filter_empty_conv)
  then show ?thesis
    using assms(1) Some
    by (cases s) (simp add: handleNoteChange_def setTimeout_def clearTimeout_def)
qed

lemma autoSaveCommit_history:
  assumes "currentNote s = Some cur"
  shows "undoStack (history (autoSaveCommit p s))
           = (if p = cur then undoStack (history s) else p # undoStack (history s))"
    and "map_option title (currentNote (autoSaveCommit p s)) = Some (title cur)"
proof -
  obtain cur2 nm1 ls1 where u: "updateNote (clock s) cur (noteManager s) (storage s)
        = (cur2, nm1, ls1)"
    by (cases "updateNote (clock s) cur (noteManager s) (storage s)") auto
  have c2: "cur2 = cur\<lparr>updated := clock s\<rparr>"
    using updateNote_fst [of "clock s" cur "noteManager s" "storage s"] u by simp
  show "undoStack (history (autoSaveCommit p s))
           = (if p = cur then undoStack (history s) else p # undoStack (history s))"
    using assms u by (simp add: autoSaveCommit_def Let_def push_def notify_def)
  show "map_option title (currentNote (autoSaveCommit p s)) = Some (title cur)"
    using assms u c2 by (simp add: autoSaveCommit_def Let_def)
qed

lemma burstTail_commit:
  assumes "currentNote s = Some cur"
    and "timers s = [(h, clock s + 500, AutoSaveTask p)]"
    and "autoSaveTimeout s = Some h"
    and "cur = p\<lparr>title := title cur\<rparr>"
    and "list_all (\<lambda>e. fst e < 500) rest"
  shows "undoStack (history (run (burstTail rest) s))
      = (if last (title p # butlast (title cur # map snd rest)) = last (title cur # map snd rest)
         then undoStack (history s)
         else p\<lparr>title := last (title p # butlast (title cur # map snd rest))\<rparr>
                # undoStack (history s))
    \<and> map_option title (currentNote (run (burstTail rest) s))
      = Some (last (title cur # map snd rest))"
  using assms
proof (induction rest arbitrary: s cur p h)
  case Nil
  have "elapse (Suc 499) s = runTask (AutoSaveTask p) (s\<lparr>clock := clock s + Suc 499, timers := []\<rparr>)"
    by (rule elapse_fire [where h = h]) (simp add: Nil.prems(2))
  then have e: "elapse 500 s = autoSaveCommit p (s\<lparr>clock := clock s + 500, timers := []\<rparr>)"
    by simp
  have cn: "currentNote (s\<lparr>clock := clock s + 500, timers := []\<rparr>) = Some cur"
    using Nil.prems(1) by simp
  have pc: "(p = cur) = (title p = title cur)"
    using Nil.prems(4) by (metis note.surjective note.update_convs(2))
  show ?case
    using autoSaveCommit_history [OF cn, of p] by (simp add: e pc)
next
  case (Cons e rest)
  obtain g v where e: "e = (g, v)" by (cases e)
  have g: "g < 500" and rest: "list_all (\<lambda>e. fst e < 500) rest"
    using Cons.prems(5) e by simp_all
  define s1 where "s1 = elapse g s"
  have s1: "s1 = s\<lparr>clock := clock s + g\<rparr>"
    unfolding s1_def using g by (intro elapse_idle) (simp add: Cons.prems(2))
  define s2 where "s2 = handleNoteChange (True, v) s1"
  have "s2 = s1\<lparr>currentNote := Some (cur\<lparr>title := v\<rparr>),
       handlesIssued := Suc (handlesIssued s1),
       timers := [(Suc (handlesIssued s1), clock s1 + 500, AutoSaveTask cur)],
       autoSaveTimeout := Some (Suc (handlesIssued s1))\<rparr>"
    unfolding s2_def
    by (rule handleNoteChange_armed) (simp_all add: s1 Cons.prems(1,2,3))
  then have s2: "currentNote s2 = Some (cur\<lparr>title := v\<rparr>)"
      "timers s2 = [(Suc (handlesIssued s), clock s2 + 500, AutoSaveTask cur)]"
      "autoSaveTimeout s2 = Some (Suc (handlesIssued s))"
      "history s2 = history s"
    by (simp_all add: s1)
  have c': "cur\<lparr>title := v\<rparr> = cur\<lparr>title := title (cur\<lparr>title := v\<rparr>)\<rparr>"
    by simp
  note ih = Cons.IH [OF s2(1) s2(2) s2(3) c' rest]
  have r: "run (burstTail (e # rest)) s = run (burstTail rest) s2"
    by (simp add: e s2_def s1_def)
  have pt: "cur\<lparr>title := x\<rparr> = p\<lparr>title := x\<rparr>" for x
    using Cons.prems(4) by (metis note.update_convs(2) note.surjective)
  show ?case
    unfolding r using ih by (simp add: s2(4) e pt)
qed

text \<open>
  What a burst of title edits does (each later edit before the 500 ms commit timer of
  the one before has fired, no other timer pending, then 500 ms of quiet): every edit
  changes the live note at once; the one timer that survives holds the note as it was
  just before the last edit, and pushes it unless the last edit left the title as it
  found it.
\<close>

lemma title_burst_commit:
  assumes "currentNote s = Some n" and "timers s = []"
    and "list_all (\<lambda>e. fst e < 500) rest"
  shows "currentNote (handleNoteChange (True, v) s) = Some (n\<lparr>title := v\<rparr>)
    \<and> undoStack (history (run (burst v rest) s))
      = (if last (title n # butlast (v # map snd rest)) = last (v # map snd rest)
         then undoStack (history s)
         else n\<lparr>title := last (title n # butlast (v # map snd rest))\<rparr> # undoStack (history s))
    \<and> map_option title (currentNote (run (burst v rest) s)) = Some (last (v # map snd rest))"
proof -
  define s1 where "s1 = handleNoteChange (True, v) s"
  have "s1 = s\<lparr>currentNote := Some (n\<lparr>title := v\<rparr>),
       handlesIssued := Suc (handlesIssued s),
       timers := [(Suc (handlesIssued s), clock s + 500, AutoSaveTask n)],
       autoSaveTimeout := Some (Suc (handlesIssued s))\<rparr>"
    unfolding s1_def by (rule handleNoteChange_armed) (simp_all add: assms(1,2))
  then have s1: "currentNote s1 = Some (n\<lparr>title := v\<rparr>)"
      "timers s1 = [(Suc (handlesIssued s), clock s1 + 500, AutoSaveTask n)]"
      "autoSaveTimeout s1 = Some (Suc (handlesIssued s))"
      "history s1 = history s"
    by simp_all
  have c': "n\<lparr>title := v\<rparr> = n\<lparr>title := title (n\<lparr>title := v\<rparr>)\<rparr>"
    by simp
  note b = burstTail_commit [OF s1(1) s1(2) s1(3) c' assms(3)]
  have r: "run (burst v rest) s = run (burstTail rest) s1"
    by (simp add: burst_def s1_def)
  show ?thesis
    unfolding r using b s1(1) by (simp add: s1(4) s1_def [symmetric])
qed


lemma title_burst_commit_example:
  "currentNote ui0 = Some note0 \<and> timers ui0 = []
   \<and> list_all (\<lambda>e. fst e < 500) [(20 :: nat, [97, 98 :: 16 word]), (300, [97, 98, 99])]
   \<and> currentNote (handleNoteChange (True, [97]) ui0) = Some (note0\<lparr>title := [97]\<rparr>)
   \<and> undoStack (history (run (burst [97] [(20, [97, 98]), (300, [97, 98, 99])]) ui0))
       = [note0\<lparr>title := [97, 98]\<rparr>]
   \<and> map_option title (currentNote (run (burst [97] [(20, [97, 98]), (300, [97, 98, 99])]) ui0))
       = Some [97, 98, 99]"
proof -
  have h: "currentNote ui0 = Some note0" "timers ui0 = []"
    "list_all (\<lambda>e. fst e < 500) [(20 :: nat, [97, 98 :: 16 word]), (300, [97, 98, 99])]"
    by (simp_all add: ui0_def)
  have u: "undoStack (history ui0) = []"
    by (simp add: ui0_def)
  show ?thesis
    using title_burst_commit [OF h, of "[97]"] h u
    by (simp del: run.simps)
qed

text \<open>
  C1. The snapshot pushed for a burst is not the state at its start. After the title
  edits \<open>a\<close>, \<open>ab\<close>, \<open>abc\<close>, 20 ms apart, the one entry on the undo stack is the note
  titled \<open>ab\<close>: \<open>handleNoteChange\<close> took a new \<open>previousState\<close> when it re-armed the timer,
  and the note as it was before the burst is not on the stack. After the edits \<open>a\<close>, \<open>a\<close>
  (the last one repeating the value), nothing is pushed and nothing is saved although
  the title has changed.
\<close>

theorem burst_loses_start_state:
  "currentNote ui0 = Some note0 \<and> title note0 = [] \<and> undoStack (history ui0) = []
   \<and> undoStack (history (run [TitleInput [97], Elapse 20, TitleInput [97, 98], Elapse 20,
         TitleInput [97, 98, 99], Elapse 500] ui0))
     = [note0\<lparr>title := [97, 98]\<rparr>]
   \<and> note0\<lparr>title := [97, 98]\<rparr> \<noteq> note0
   \<and> map_option title (currentNote (run [TitleInput [97], Elapse 20, TitleInput [97, 98],
         Elapse 20, TitleInput [97, 98, 99], Elapse 500] ui0)) = Some [97, 98, 99]
   \<and> undoStack (history (run [TitleInput [97], Elapse 20, TitleInput [97], Elapse 500] ui0)) = []
   \<and> map_option title (currentNote (run [TitleInput [97], Elapse 20, TitleInput [97],
         Elapse 500] ui0)) = Some [97]
   \<and> notes (noteManager (run [TitleInput [97], Elapse 20, TitleInput [97], Elapse 500] ui0))
     = [note0]
   \<and> setItemCalls (storage (run [TitleInput [97], Elapse 20, TitleInput [97], Elapse 500] ui0))
     = 0
   \<and> timers (run [TitleInput [97], Elapse 20, TitleInput [97], Elapse 500] ui0) = []"
  by (simp add: eval_defs)

text \<open>
  Edits of a region's text go through \<open>updateToggleContent\<close>, which arms no timer: two of
  them 20 ms apart push two entries.
\<close>

lemma content_edits_push_each:
  "length (undoStack (history (run [TextareaInput 2 [98, 99, 100], Elapse 20,
      TextareaInput 2 [98, 99, 100, 101]] ui0))) = 2"
  by (simp add: eval_defs)

end
